theory Spec2Isabelle
  imports Complex_Main
begin

section \<open>Numbers and typed arrays\<close>

text \<open>
  The elements of a tensor are JavaScript numbers.  The model keeps the finite values as
  reals (rounding and overflow of the floating-point formats are not represented) and
  adds the three special values the kernel can produce or meet: both infinities and NaN.
\<close>

datatype number = NaN | NegInfinity | Fin real | PosInfinity

text \<open>\<open>a + b\<close> on numbers, as \<open>ops.sum\<close> accumulates it.\<close>

fun num_add :: "number \<Rightarrow> number \<Rightarrow> number" where
  "num_add NaN _ = NaN"
| "num_add _ NaN = NaN"
| "num_add (Fin a) (Fin b) = Fin (a + b)"
| "num_add (Fin a) PosInfinity = PosInfinity"
| "num_add (Fin a) NegInfinity = NegInfinity"
| "num_add PosInfinity (Fin b) = PosInfinity"
| "num_add NegInfinity (Fin b) = NegInfinity"
| "num_add PosInfinity PosInfinity = PosInfinity"
| "num_add NegInfinity NegInfinity = NegInfinity"
| "num_add PosInfinity NegInfinity = NaN"
| "num_add NegInfinity PosInfinity = NaN"

text \<open>\<open>a > b\<close> on numbers, as \<open>ops.sup\<close> compares; every comparison with NaN is false.\<close>

fun num_gt :: "number \<Rightarrow> number \<Rightarrow> bool" where
  "num_gt NaN _ = False"
| "num_gt _ NaN = False"
| "num_gt (Fin a) (Fin b) = (a > b)"
| "num_gt PosInfinity PosInfinity = False"
| "num_gt PosInfinity _ = True"
| "num_gt NegInfinity _ = False"
| "num_gt (Fin a) NegInfinity = True"
| "num_gt (Fin a) PosInfinity = False"

text \<open>
  \<open>x / (a * b)\<close> for a number \<open>x\<close> and two integers, as \<open>call\<close> divides a window's sum by
  \<open>nbCellsEffective = (nbRow - nbRowInPadding) * (nbCol - nbColInPadding)\<close>.  When the
  product is zero, the sign of JavaScript's zero decides the sign of the infinite
  quotient: a zero factor is \<open>+0\<close> (it is the difference of two equal integers), so the
  product is \<open>-0\<close> exactly when the other factor is negative.
\<close>

definition num_div :: "number \<Rightarrow> int \<Rightarrow> int \<Rightarrow> number" where
  "num_div x a b =
     (let n = a * b;
          negative = (if n = 0 then (a < 0 \<or> b < 0) else n < 0)
      in case x of
           NaN \<Rightarrow> NaN
         | Fin v \<Rightarrow>
             (if n \<noteq> 0 then Fin (v / real_of_int n)
              else if v = 0 then NaN
              else if (v < 0) = negative then PosInfinity else NegInfinity)
         | PosInfinity \<Rightarrow> (if negative then NegInfinity else PosInfinity)
         | NegInfinity \<Rightarrow> (if negative then PosInfinity else NegInfinity))"

text \<open>
  The heap holds the typed arrays behind the tensors; a reference is an index into it.
  Reading a typed array out of range gives \<open>undefined\<close>, which every use in the kernel
  (a sum, a comparison, a store into another typed array) treats as NaN; a write out of
  range is ignored.
\<close>

type_synonym heap = "number list list"

definition buf :: "heap \<Rightarrow> nat \<Rightarrow> number list" where
  "buf h r = (if r < length h then h ! r else [])"

definition buf_get :: "number list \<Rightarrow> int \<Rightarrow> number" where
  "buf_get b p = (if 0 \<le> p \<and> p < int (length b) then b ! nat p else NaN)"

definition buf_set :: "number list \<Rightarrow> int \<Rightarrow> number \<Rightarrow> number list" where
  "buf_set b p v = (if 0 \<le> p \<and> p < int (length b) then b[nat p := v] else b)"

section \<open>The ndarray views the kernel uses\<close>

text \<open>
  A three-axis ndarray: a reference to its typed array, and the shape, stride and offset
  that map an index to a position of the array.  The \<open>ndarray\<close> and \<open>ndarray-ops\<close>
  libraries are imported by the kernel, not part of it; their operations are written
  here as the libraries define them, each under the name the kernel calls it by.
\<close>

record ndarray =
  data :: nat
  shape :: "int \<times> int \<times> int"
  stride :: "int \<times> int \<times> int"
  offset :: int

definition flat :: "ndarray \<Rightarrow> int \<times> int \<times> int \<Rightarrow> int" where
  "flat a idx =
     (case (stride a, idx) of ((s0, s1, s2), (i, j, k)) \<Rightarrow> offset a + s0 * i + s1 * j + s2 * k)"

definition get :: "heap \<Rightarrow> ndarray \<Rightarrow> int \<times> int \<times> int \<Rightarrow> number" where
  "get h a idx = buf_get (buf h (data a)) (flat a idx)"

definition set3 :: "heap \<Rightarrow> ndarray \<Rightarrow> int \<times> int \<times> int \<Rightarrow> number \<Rightarrow> heap" where
  "set3 h a idx v =
     (if data a < length h then h[data a := buf_set (h ! data a) (flat a idx) v] else h)"

text \<open>\<open>a.hi(i, j, k)\<close>: an argument that is negative leaves its axis as it is.\<close>

definition hi :: "ndarray \<Rightarrow> int \<times> int \<times> int \<Rightarrow> ndarray" where
  "hi a idx =
     (case (shape a, idx) of ((d0, d1, d2), (i, j, k)) \<Rightarrow>
        a\<lparr>shape := (if 0 \<le> i then i else d0, if 0 \<le> j then j else d1, if 0 \<le> k then k else d2)\<rparr>)"

text \<open>\<open>a.lo(i, j, k)\<close>: each non-negative argument moves the origin and shortens its axis.\<close>

definition lo :: "ndarray \<Rightarrow> int \<times> int \<times> int \<Rightarrow> ndarray" where
  "lo a idx =
     (case (shape a, stride a, idx) of ((d0, d1, d2), (s0, s1, s2), (i, j, k)) \<Rightarrow>
        a\<lparr>shape := (if 0 \<le> i then d0 - i else d0, if 0 \<le> j then d1 - j else d1,
                    if 0 \<le> k then d2 - k else d2),
          offset := offset a + (if 0 \<le> i then s0 * i else 0) + (if 0 \<le> j then s1 * j else 0)
                      + (if 0 \<le> k then s2 * k else 0)\<rparr>)"

text \<open>The two axis permutations of \<open>call\<close>: \<open>transpose(1, 2, 0)\<close> and \<open>transpose(2, 0, 1)\<close>.\<close>

definition transpose_120 :: "ndarray \<Rightarrow> ndarray" where
  "transpose_120 a =
     (case (shape a, stride a) of ((d0, d1, d2), (s0, s1, s2)) \<Rightarrow>
        a\<lparr>shape := (d1, d2, d0), stride := (s1, s2, s0)\<rparr>)"

definition transpose_201 :: "ndarray \<Rightarrow> ndarray" where
  "transpose_201 a =
     (case (shape a, stride a) of ((d0, d1, d2), (s0, s1, s2)) \<Rightarrow>
        a\<lparr>shape := (d2, d0, d1), stride := (s2, s0, s1)\<rparr>)"

text \<open>
  The index lists the element-wise operations run through, in row-major order.  (The
  library picks the loop order from the strides; no operation of the kernel depends on
  it: the arrays written are fresh, and addition and maximum of the idealised numbers do
  not depend on the order.)
\<close>

definition indices3 :: "int \<times> int \<times> int \<Rightarrow> (int \<times> int \<times> int) list" where
  "indices3 shp =
     (case shp of (d0, d1, d2) \<Rightarrow>
        concat (map (\<lambda>i. concat (map (\<lambda>j. map (\<lambda>k. (i, j, k)) [0..d2 - 1]) [0..d1 - 1]))
          [0..d0 - 1]))"

definition indices2 :: "int \<times> int \<times> int \<Rightarrow> (int \<times> int) list" where
  "indices2 shp =
     (case shp of (d0, d1, d2) \<Rightarrow> concat (map (\<lambda>i. map (\<lambda>j. (i, j)) [0..d1 - 1]) [0..d0 - 1]))"

text \<open>\<open>ops.assigns(a, v)\<close> and \<open>ops.assign(a, b)\<close>: both run over the shape of \<open>a\<close>.\<close>

definition assigns :: "heap \<Rightarrow> ndarray \<Rightarrow> number \<Rightarrow> heap" where
  "assigns h a v = foldl (\<lambda>h' idx. set3 h' a idx v) h (indices3 (shape a))"

definition assign :: "heap \<Rightarrow> ndarray \<Rightarrow> ndarray \<Rightarrow> heap" where
  "assign h a b = foldl (\<lambda>h' idx. set3 h' a idx (get h' b idx)) h (indices3 (shape a))"

text \<open>
  \<open>ops.sup(a.pick(null, null, c))\<close> and \<open>ops.sum(a.pick(null, null, c))\<close>: the picked view
  is the plane of channel \<open>c\<close>, over the first two axes of \<open>a\<close>.
\<close>

definition sup_pick :: "heap \<Rightarrow> ndarray \<Rightarrow> int \<Rightarrow> number" where
  "sup_pick h a c =
     foldl (\<lambda>s (i, j). if num_gt (get h a (i, j, c)) s then get h a (i, j, c) else s)
       NegInfinity (indices2 (shape a))"

definition sum_pick :: "heap \<Rightarrow> ndarray \<Rightarrow> int \<Rightarrow> number" where
  "sum_pick h a c =
     foldl (\<lambda>s (i, j). num_add s (get h a (i, j, c))) (Fin 0) (indices2 (shape a))"

text \<open>
  Modelled from the spec: the \<open>Tensor\<close> constructor, whose class is not among the
  sources.  \<open>new Tensor([], shape)\<close> allocates a fresh typed array of as many zeros as
  the shape has cells (none for a shape with a non-positive product: the spec has the
  source produce a tensor without raising) and views it in row-major order.
\<close>

definition newTensor :: "heap \<Rightarrow> int \<times> int \<times> int \<Rightarrow> heap \<times> ndarray" where
  "newTensor h shp =
     (case shp of (d0, d1, d2) \<Rightarrow>
        (h @ [replicate (nat (d0 * d1 * d2)) (Fin 0)],
         \<lparr>data = length h, shape = shp, stride = (d1 * d2, d2, 1), offset = 0\<rparr>))"

section \<open>The base layer\<close>

record attrs =
  attr_name :: "string option"
  attr_gpu :: bool
  attr_poolSize :: "(int \<times> int) option"
  attr_strides :: "(int \<times> int) option"
  attr_borderMode :: "string option"
  attr_dimOrdering :: "string option"

record Layer =
  layerClass :: string
  name :: "string option"
  params :: "string list"
  weights :: "(string \<times> ndarray) list"
  useWeblas :: bool

text \<open>
  The constructor of \<open>Layer\<close>.  The global \<open>weblas\<close> is declared outside the sources; the
  constructor only tests it, so the model takes its truth value as a parameter.
\<close>

definition Layer_constructor :: "bool \<Rightarrow> 'a attrs_scheme \<Rightarrow> Layer" where
  "Layer_constructor weblas ats =
     \<lparr>layerClass = ''Layer'', name = attr_name ats, params = [], weights = [],
      useWeblas = (if attr_gpu ats \<and> weblas then True else False)\<rparr>"

text \<open>\<open>Layer.call\<close>: returns its argument; the layer and the heap come back as they were.\<close>

definition Layer_call :: "'a Layer_scheme \<Rightarrow> heap \<Rightarrow> ndarray \<Rightarrow> ndarray \<times> 'a Layer_scheme \<times> heap" where
  "Layer_call L h x = (x, L, h)"

section \<open>The pooling layer\<close>

record Pooling2D = Layer +
  poolSize :: "int \<times> int"
  strides :: "int \<times> int"
  borderMode :: string
  dimOrdering :: string
  poolingFunc :: string
  outputShape :: "(int \<times> int \<times> int) option"
  inputPadding :: "(int \<times> int \<times> int \<times> int) option"

text \<open>
  The constructor: \<open>super(attrs)\<close>, then the four attributes with their defaults, then
  the pooling function.  \<open>outputShape\<close> and \<open>inputPadding\<close> are not set here.
\<close>

definition Pooling2D_constructor :: "bool \<Rightarrow> 'a attrs_scheme \<Rightarrow> Pooling2D" where
  "Pooling2D_constructor weblas ats =
     (let super = Layer_constructor weblas ats;
          poolSize' = (case attr_poolSize ats of None \<Rightarrow> (2, 2) | Some p \<Rightarrow> p);
          strides' = attr_strides ats;
          borderMode' = (case attr_borderMode ats of None \<Rightarrow> ''valid'' | Some b \<Rightarrow> b);
          dimOrdering' = (case attr_dimOrdering ats of None \<Rightarrow> ''tf'' | Some d \<Rightarrow> d)
      in Layer.extend (super\<lparr>layerClass := ''_Pooling2D''\<rparr>)
           (Pooling2D.fields poolSize'
              (case strides' of None \<Rightarrow> poolSize' | Some s \<Rightarrow> s)
              borderMode' dimOrdering' ''max'' None None))"

text \<open>
  \<open>_calcOutputShape\<close>.  \<open>Math.floor(a / b)\<close> of two integers is \<open>a div b\<close> when \<open>b\<close> is not
  zero (both round towards minus infinity); a zero stride makes the JavaScript quotient
  infinite or NaN, which the integer fields of this model do not represent.
\<close>

definition calcOutputShape :: "Pooling2D \<Rightarrow> ndarray \<Rightarrow> Pooling2D" where
  "calcOutputShape L x =
     (case (shape x, poolSize L) of ((inputRows, inputCols, inputChannels), (nbRow, nbCol)) \<Rightarrow>
      let outputRows = (if borderMode L = ''same''
             then (inputRows + fst (strides L) - 1) div fst (strides L)
             else (inputRows - nbRow + fst (strides L)) div fst (strides L));
          outputCols = (if borderMode L = ''same''
             then (inputCols + snd (strides L) - 1) div snd (strides L)
             else (inputCols - nbCol + snd (strides L)) div snd (strides L));
          paddingRow = (if borderMode L = ''same''
             then max 0 ((outputRows - 1) * fst (strides L) + nbRow - inputRows)
             else 0);
          paddingCol = (if borderMode L = ''same''
             then max 0 ((outputCols - 1) * snd (strides L) + nbCol - inputCols)
             else 0);
          paddingRowBefore = paddingRow div 2;
          paddingRowAfter = paddingRow - paddingRowBefore;
          paddingColBefore = paddingCol div 2;
          paddingColAfter = paddingCol - paddingColBefore
      in L\<lparr>outputShape := Some (outputRows, outputCols, inputChannels),
           inputPadding := Some (paddingRowBefore, paddingRowAfter, paddingColBefore, paddingColAfter)\<rparr>)"

datatype js_error = Error string | TypeError

text \<open>
  \<open>_padInput\<close>, on the tensor \<open>x.tensor\<close>: it returns the heap and the ndarray \<open>x.tensor\<close>
  refers to afterwards.  Destructuring \<open>this.inputPadding\<close> before \<open>_calcOutputShape\<close> has
  set it is a TypeError.
\<close>

definition padInput :: "Pooling2D \<Rightarrow> heap \<Rightarrow> ndarray \<Rightarrow> js_error + heap \<times> ndarray" where
  "padInput L h x =
     (if borderMode L = ''same'' then
        (case shape x of (inputRows, inputCols, inputChannels) \<Rightarrow>
         (case inputPadding L of
           None \<Rightarrow> Inl TypeError
         | Some (paddingRowBefore, paddingRowAfter, paddingColBefore, paddingColAfter) \<Rightarrow>
             let newRows = inputRows + paddingRowBefore + paddingRowAfter;
                 newCols = inputCols + paddingColBefore + paddingColAfter;
                 (h1, x') = newTensor h (newRows, newCols, inputChannels);
                 h2 = (if poolingFunc L = ''max'' then assigns h1 x' NegInfinity else h1);
                 h3 = assign h2
                        (lo (hi x' (inputRows + paddingRowBefore, inputCols + paddingColBefore,
                                    inputChannels))
                            (paddingRowBefore, paddingColBefore, 0))
                        x
             in Inr (h3, x')))
      else Inr (h, x))"

text \<open>
  The loop \<open>for (let i = 0, _i = 0; i <= upper; i += step, _i++) body\<close>, from the values of
  \<open>i\<close> and \<open>_i\<close> at its head.  It does not return when \<open>step\<close> is not positive and the
  condition holds: that is the value \<open>None\<close>.
\<close>

partial_function (option) forStride ::
  "int \<Rightarrow> int \<Rightarrow> (int \<Rightarrow> int \<Rightarrow> 's \<Rightarrow> 's option) \<Rightarrow> int \<Rightarrow> int \<Rightarrow> 's \<Rightarrow> 's option" where
  "forStride upper step body i i' s =
     (if i \<le> upper then Option.bind (body i i' s) (forStride upper step body (i + step) (i' + 1))
      else Some s)"

declare forStride.simps [code]

text \<open>The padding rows and columns of the window at \<open>i\<close> (at \<open>j\<close>), as \<open>call\<close> counts them.\<close>

definition nbRowInPadding :: "int \<Rightarrow> int \<Rightarrow> int \<Rightarrow> int \<Rightarrow> int \<Rightarrow> int" where
  "nbRowInPadding i nbRow inputRows paddingRowBefore paddingRowAfter =
     (if i < paddingRowBefore then paddingRowBefore - i
      else if (i + nbRow) > (inputRows - paddingRowAfter)
        then (i + nbRow) - (inputRows - paddingRowAfter)
      else 0)"

definition nbColInPadding :: "int \<Rightarrow> int \<Rightarrow> int \<Rightarrow> int \<Rightarrow> int \<Rightarrow> int" where
  "nbColInPadding j nbCol inputCols paddingColBefore paddingColAfter =
     (if j < paddingColBefore then paddingColBefore - j
      else if (j + nbCol) > (inputCols - paddingColAfter)
        then (j + nbCol) - (inputCols - paddingColAfter)
      else 0)"

text \<open>The body of the loop over the channels: one cell of \<open>y\<close>.\<close>

definition poolCell ::
  "Pooling2D \<Rightarrow> ndarray \<Rightarrow> ndarray \<Rightarrow> int \<Rightarrow> int \<Rightarrow> int \<Rightarrow> int \<Rightarrow> heap \<Rightarrow> int \<Rightarrow> heap" where
  "poolCell L y patch i' j' rowsIn colsIn h c =
     (if poolingFunc L = ''max'' then set3 h y (i', j', c) (sup_pick h patch c)
      else if poolingFunc L = ''average'' then
        set3 h y (i', j', c) (num_div (sum_pick h patch c) rowsIn colsIn)
      else h)"

text \<open>
  The body of the loop over the columns, after the padding count: the window is copied
  into \<open>patch\<close> and reduced on every channel; \<open>rowsIn\<close> and \<open>colsIn\<close> are the two factors of
  \<open>nbCellsEffective\<close>.
\<close>

definition poolWindow ::
  "Pooling2D \<Rightarrow> ndarray \<Rightarrow> ndarray \<Rightarrow> ndarray \<Rightarrow> int \<Rightarrow> int \<Rightarrow> int \<Rightarrow> int \<Rightarrow> int \<Rightarrow> int
     \<Rightarrow> heap \<Rightarrow> heap" where
  "poolWindow L x y patch i i' j j' rowsIn colsIn h =
     (case (shape x, poolSize L) of ((inputRows, inputCols, inputChannels), (nbRow, nbCol)) \<Rightarrow>
        let h' = assign h patch (lo (hi x (i + nbRow, j + nbCol, inputChannels)) (i, j, 0))
        in foldl (poolCell L y patch i' j' rowsIn colsIn) h' [0..inputChannels - 1])"

text \<open>The two nested loops of \<open>call\<close> over the window positions.\<close>

definition poolLoops ::
  "Pooling2D \<Rightarrow> ndarray \<Rightarrow> ndarray \<Rightarrow> ndarray \<Rightarrow> int \<times> int \<times> int \<times> int \<Rightarrow> heap \<Rightarrow> heap option" where
  "poolLoops L x y patch padding h =
     (case (shape x, poolSize L, padding) of
        ((inputRows, inputCols, inputChannels), (nbRow, nbCol),
         (paddingRowBefore, paddingRowAfter, paddingColBefore, paddingColAfter)) \<Rightarrow>
        forStride (inputRows - nbRow) (fst (strides L))
          (\<lambda>i i' hr.
             let rowsInPadding = nbRowInPadding i nbRow inputRows paddingRowBefore paddingRowAfter
             in forStride (inputCols - nbCol) (snd (strides L))
                  (\<lambda>j j' hc.
                     let colsInPadding =
                           nbColInPadding j nbCol inputCols paddingColBefore paddingColAfter
                     in Some (poolWindow L x y patch i i' j j'
                                (nbRow - rowsInPadding) (nbCol - colsInPadding) hc))
                  0 0 hr)
          0 0 h)"

text \<open>
  The window positions \<open>(i, j)\<close> the two loops reach, in the order they reach them: the
  same loop heads with a body that only records the position.
\<close>

definition windowPositions :: "Pooling2D \<Rightarrow> ndarray \<Rightarrow> (int \<times> int) list option" where
  "windowPositions L x =
     (case (shape x, poolSize L) of ((inputRows, inputCols, inputChannels), (nbRow, nbCol)) \<Rightarrow>
        forStride (inputRows - nbRow) (fst (strides L))
          (\<lambda>i i' ps.
             forStride (inputCols - nbCol) (snd (strides L))
               (\<lambda>j j' ps'. Some (ps' @ [(i, j)])) 0 0 ps)
          0 0 [])"

definition InvalidConfiguration :: js_error where
  "InvalidConfiguration = Error ''[pooling._Pooling2D] pooling function must be max or average.''"

text \<open>
  \<open>call\<close>, on the tensor \<open>x.tensor\<close>.  The result is what is thrown or the ndarray
  \<open>x.tensor\<close> refers to when \<open>x\<close> is returned, with the layer and the heap at that moment;
  \<open>None\<close> when a loop does not return.
\<close>

definition call ::
  "Pooling2D \<Rightarrow> heap \<Rightarrow> ndarray \<Rightarrow> ((js_error + ndarray) \<times> Pooling2D \<times> heap) option" where
  "call L h x =
     (if poolingFunc L \<noteq> ''max'' \<and> poolingFunc L \<noteq> ''average'' then
        Some (Inl InvalidConfiguration, L, h)
      else
        let x1 = (if dimOrdering L = ''th'' then transpose_120 x else x);
            L1 = calcOutputShape L x1
        in case padInput L1 h x1 of
             Inl e \<Rightarrow> Some (Inl e, L1, h)
           | Inr (h1, x2) \<Rightarrow>
               (case (shape x2, poolSize L1, outputShape L1, inputPadding L1) of
                  ((inputRows, inputCols, inputChannels), (nbRow, nbCol), Some outShape, Some padding) \<Rightarrow>
                    let (h2, y) = newTensor h1 outShape;
                        (h3, patch) = newTensor h2 (nbRow, nbCol, inputChannels)
                    in (case poolLoops L1 x2 y patch padding h3 of
                          None \<Rightarrow> None
                        | Some h4 \<Rightarrow>
                            Some (Inr (if dimOrdering L1 = ''th'' then transpose_201 y else y),
                                  L1, h4))
                | _ \<Rightarrow> Some (Inl TypeError, L1, h1)))"

section \<open>The formulas of the specification\<close>

text \<open>
  The closed forms the specification gives for the output size and the total padding, in
  its own words: a floor of a quotient of reals.  The theorems below compare them with
  what \<open>_calcOutputShape\<close> computes.
\<close>

definition spec_outSame :: "int \<Rightarrow> int \<Rightarrow> int" where
  "spec_outSame n s = \<lfloor>real_of_int (n + s - 1) / real_of_int s\<rfloor>"

definition spec_padTotal :: "int \<Rightarrow> int \<Rightarrow> int \<Rightarrow> int" where
  "spec_padTotal n k s = max 0 ((spec_outSame n s - 1) * s + k - n)"

definition spec_outValid :: "int \<Rightarrow> int \<Rightarrow> int \<Rightarrow> int" where
  "spec_outValid n k s = \<lfloor>real_of_int (n - k + s) / real_of_int s\<rfloor>"

text \<open>The split of a total padding: \<open>before = floor(total / 2)\<close>, \<open>after = total - before\<close>.\<close>

definition spec_before :: "int \<Rightarrow> int" where
  "spec_before p = \<lfloor>real_of_int p / 2\<rfloor>"

definition spec_after :: "int \<Rightarrow> int" where
  "spec_after p = p - spec_before p"

text \<open>
  The number of rows (or columns) of a window that lie in the padding: the window covers
  \<open>i, \<dots>, i + k - 1\<close> of an axis of length \<open>n\<close>, whose first \<open>before\<close> and last \<open>after\<close>
  indices are padding.
\<close>

definition spec_inPadding :: "int \<Rightarrow> int \<Rightarrow> int \<Rightarrow> int \<Rightarrow> int \<Rightarrow> int" where
  "spec_inPadding i k n before after =
     int (length (filter (\<lambda>r. r < before \<or> n - after \<le> r) [i..i + k - 1]))"

section \<open>Counting the iterations of the loops\<close>

text \<open>The number of times a loop with a positive step runs from \<open>i\<close> while \<open>i \<le> upper\<close>.\<close>

definition iterations :: "int \<Rightarrow> int \<Rightarrow> int \<Rightarrow> nat" where
  "iterations upper step i = nat ((upper - i) div step + 1)"

text \<open>
  The window positions \<open>(a * sh, b * sw)\<close> for \<open>a < nr\<close> and \<open>b < nc\<close>, row by row: the
  row indices \<open>0, sh, 2 * sh, \<dots>\<close> and the column indices \<open>0, sw, 2 * sw, \<dots>\<close>.
\<close>

definition positions :: "int \<Rightarrow> int \<Rightarrow> nat \<Rightarrow> nat \<Rightarrow> (int \<times> int) list" where
  "positions sh sw nr nc =
     concat (map (\<lambda>a. map (\<lambda>b. (int a * sh, int b * sw)) [0..<nc]) [0..<nr])"

section \<open>Runs of writes\<close>

text \<open>
  A run of stores into one ndarray, the value of each given by its index: what
  \<open>ops.assigns\<close> does, and \<open>ops.assign\<close> when the source lies in another typed array.
\<close>

definition writes ::
  "heap \<Rightarrow> ndarray \<Rightarrow> (int \<times> int \<times> int \<Rightarrow> number) \<Rightarrow> (int \<times> int \<times> int) list \<Rightarrow> heap" where
  "writes h a f ids = foldl (\<lambda>h' idx. set3 h' a idx (f idx)) h ids"

section \<open>Concrete layers and tensors\<close>

text \<open>Attribute objects as a caller passes them to the constructor.\<close>

definition attrs_2x2_same :: attrs where
  "attrs_2x2_same = \<lparr>attr_name = None, attr_gpu = False, attr_poolSize = Some (2, 2),
     attr_strides = None, attr_borderMode = Some ''same'', attr_dimOrdering = None\<rparr>"

definition attrs_2x2_valid :: attrs where
  "attrs_2x2_valid = \<lparr>attr_name = None, attr_gpu = False, attr_poolSize = None,
     attr_strides = Some (2, 2), attr_borderMode = None, attr_dimOrdering = None\<rparr>"

definition attrs_3x3_valid :: attrs where
  "attrs_3x3_valid = \<lparr>attr_name = None, attr_gpu = False, attr_poolSize = Some (3, 3),
     attr_strides = Some (1, 1), attr_borderMode = Some ''valid'', attr_dimOrdering = None\<rparr>"

definition attrs_3x3_same :: attrs where
  "attrs_3x3_same = \<lparr>attr_name = None, attr_gpu = False, attr_poolSize = Some (3, 3),
     attr_strides = Some (1, 1), attr_borderMode = Some ''same'', attr_dimOrdering = None\<rparr>"

definition attrs_th :: attrs where
  "attrs_th = \<lparr>attr_name = None, attr_gpu = False, attr_poolSize = None,
     attr_strides = None, attr_borderMode = None, attr_dimOrdering = Some ''th''\<rparr>"

text \<open>Attributes that carry one more key, \<open>poolingFunc\<close>, which the constructor never reads.\<close>

record attrs_func = attrs +
  attr_poolingFunc :: string

definition attrs_average :: attrs_func where
  "attrs_average = \<lparr>attr_name = None, attr_gpu = False, attr_poolSize = None,
     attr_strides = None, attr_borderMode = None, attr_dimOrdering = None,
     attr_poolingFunc = ''average''\<rparr>"

text \<open>
  Layers whose pooling function was set after construction: to a name that is neither
  \<open>max\<close> nor \<open>average\<close>, and to \<open>average\<close>.
\<close>

definition layer_median :: Pooling2D where
  "layer_median = (Pooling2D_constructor False attrs_2x2_valid)\<lparr>poolingFunc := ''median''\<rparr>"

definition layer_average_3x3 :: Pooling2D where
  "layer_average_3x3 = (Pooling2D_constructor False attrs_3x3_same)\<lparr>poolingFunc := ''average''\<rparr>"

text \<open>
  Input tensors, each the first typed array of its heap, in row-major order: 5 by 5 with
  one channel, every cell holding its row index; 4 by 4 with one channel, all ones (also
  read channels-first, as 1 by 4 by 4); and a single cell.
\<close>

definition view_5x5x1 :: ndarray where
  "view_5x5x1 = \<lparr>data = 0, shape = (5, 5, 1), stride = (5, 1, 1), offset = 0\<rparr>"

definition heap_5x5x1 :: heap where
  "heap_5x5x1 = [map (\<lambda>p. Fin (real (p div 5))) [0..<25]]"

definition view_4x4x1 :: ndarray where
  "view_4x4x1 = \<lparr>data = 0, shape = (4, 4, 1), stride = (4, 1, 1), offset = 0\<rparr>"

definition view_1x4x4 :: ndarray where
  "view_1x4x4 = \<lparr>data = 0, shape = (1, 4, 4), stride = (16, 4, 1), offset = 0\<rparr>"

definition heap_4x4x1 :: heap where
  "heap_4x4x1 = [replicate 16 (Fin 1)]"

definition view_1x1x1 :: ndarray where
  "view_1x1x1 = \<lparr>data = 0, shape = (1, 1, 1), stride = (1, 1, 1), offset = 0\<rparr>"

text \<open>The 5 by 5 input padded to 6 by 6: the second typed array of the heap.\<close>

definition view_6x6x1 :: ndarray where
  "view_6x6x1 = \<lparr>data = 1, shape = (6, 6, 1), stride = (6, 1, 1), offset = 0\<rparr>"

text \<open>
  The run of \<open>call\<close> on the single cell holding 6, with a 3 by 3 window in \<open>same\<close> mode:
  the padded tensor, the output \<open>y\<close> and the patch, and the heap after the padding step,
  after the two allocations, and at the end.
\<close>

definition view_3x3x1 :: ndarray where
  "view_3x3x1 = \<lparr>data = 1, shape = (3, 3, 1), stride = (3, 1, 1), offset = 0\<rparr>"

definition view_y_six :: ndarray where
  "view_y_six = \<lparr>data = 2, shape = (1, 1, 1), stride = (1, 1, 1), offset = 0\<rparr>"

definition view_patch_six :: ndarray where
  "view_patch_six = \<lparr>data = 3, shape = (3, 3, 1), stride = (3, 1, 1), offset = 0\<rparr>"

definition heap_padded_six :: heap where
  "heap_padded_six = [[Fin 6], [Fin 0, Fin 0, Fin 0, Fin 0, Fin 6, Fin 0, Fin 0, Fin 0, Fin 0]]"

definition heap_six_windows :: heap where
  "heap_six_windows = [[Fin 6], [Fin 0, Fin 0, Fin 0, Fin 0, Fin 6, Fin 0, Fin 0, Fin 0, Fin 0],
     [Fin 0], [Fin 0, Fin 0, Fin 0, Fin 0, Fin 0, Fin 0, Fin 0, Fin 0, Fin 0]]"

definition heap_six_result :: heap where
  "heap_six_result = [[Fin 6], [Fin 0, Fin 0, Fin 0, Fin 0, Fin 6, Fin 0, Fin 0, Fin 0, Fin 0],
     [Fin (3 / 2)], [Fin 0, Fin 0, Fin 0, Fin 0, Fin 6, Fin 0, Fin 0, Fin 0, Fin 0]]"

section \<open>Shape and padding derivation\<close>

lemma Pooling2D_constructor_fields:
  "poolSize (Pooling2D_constructor w ats) = (case attr_poolSize ats of None \<Rightarrow> (2, 2) | Some p \<Rightarrow> p)"
  "strides (Pooling2D_constructor w ats) =
     (case attr_strides ats of
        None \<Rightarrow> (case attr_poolSize ats of None \<Rightarrow> (2, 2) | Some p \<Rightarrow> p)
      | Some s \<Rightarrow> s)"
  "borderMode (Pooling2D_constructor w ats) =
     (case attr_borderMode ats of None \<Rightarrow> ''valid'' | Some b \<Rightarrow> b)"
  "dimOrdering (Pooling2D_constructor w ats) =
     (case attr_dimOrdering ats of None \<Rightarrow> ''tf'' | Some d \<Rightarrow> d)"
  "poolingFunc (Pooling2D_constructor w ats) = ''max''"
  "outputShape (Pooling2D_constructor w ats) = None"
  "inputPadding (Pooling2D_constructor w ats) = None"
  by (simp_all add: Pooling2D_constructor_def Let_def Layer.extend_def Pooling2D.fields_def
      Layer_constructor_def)

text \<open>
  Claim C1.  In \<open>same\<close> mode, for an input of spatial size \<open>(H, W)\<close>, a window \<open>(kh, kw)\<close>
  and a stride \<open>(sh, sw)\<close>, all positive, \<open>_calcOutputShape\<close> stores the output size
  \<open>floor((H + sh - 1) / sh)\<close> by \<open>floor((W + sw - 1) / sw)\<close> and splits each total padding
  \<open>max(0, (out - 1) * s + k - n)\<close> into \<open>floor(total / 2)\<close> before and the rest after; when a
  total is odd, the side after holds one cell more than the side before, and the side
  before never holds more than the side after.
\<close>

theorem calcOutputShape_same:
  assumes "borderMode L = ''same''" and "shape x = (H, W, C)"
    and "poolSize L = (kh, kw)" and "strides L = (sh, sw)"
    and "0 < H" and "0 < W" and "0 < kh" and "0 < kw" and "0 < sh" and "0 < sw"
  shows "outputShape (calcOutputShape L x) = Some (spec_outSame H sh, spec_outSame W sw, C) \<and>
         inputPadding (calcOutputShape L x) =
           Some (spec_before (spec_padTotal H kh sh), spec_after (spec_padTotal H kh sh),
                 spec_before (spec_padTotal W kw sw), spec_after (spec_padTotal W kw sw)) \<and>
         (odd (spec_padTotal H kh sh) \<longrightarrow>
            spec_after (spec_padTotal H kh sh) = spec_before (spec_padTotal H kh sh) + 1) \<and>
         (odd (spec_padTotal W kw sw) \<longrightarrow>
            spec_after (spec_padTotal W kw sw) = spec_before (spec_padTotal W kw sw) + 1) \<and>
         spec_before (spec_padTotal H kh sh) \<le> spec_after (spec_padTotal H kh sh) \<and>
         spec_before (spec_padTotal W kw sw) \<le> spec_after (spec_padTotal W kw sw)"
proof -
  have out: "spec_outSame H sh = (H + sh - 1) div sh" "spec_outSame W sw = (W + sw - 1) div sw"
    by (simp_all only: spec_outSame_def floor_divide_of_int_eq)
  have bf: "spec_before p = p div 2" for p
    using floor_divide_of_int_eq [of p 2, where ?'a = real] by (simp add: spec_before_def)
  have shp: "outputShape (calcOutputShape L x) = Some (spec_outSame H sh, spec_outSame W sw, C)"
    using assms(1-4) by (simp add: calcOutputShape_def out Let_def)
  have pad: "inputPadding (calcOutputShape L x) =
           Some (spec_before (spec_padTotal H kh sh), spec_after (spec_padTotal H kh sh),
                 spec_before (spec_padTotal W kw sw), spec_after (spec_padTotal W kw sw))"
    using assms(1-4)
    by (simp add: calcOutputShape_def spec_padTotal_def spec_after_def bf out Let_def)
  have odd: "odd p \<longrightarrow> spec_after p = spec_before p + 1" for p :: int
    unfolding spec_after_def bf by presburger
  have le: "spec_before (spec_padTotal n k s) \<le> spec_after (spec_padTotal n k s)" for n k s
  proof -
    have "0 \<le> spec_padTotal n k s" by (simp add: spec_padTotal_def)
    then show ?thesis unfolding spec_after_def bf by presburger
  qed
  show ?thesis using shp pad odd le by blast
qed

theorem calcOutputShape_same_witness:
  "outputShape (calcOutputShape (Pooling2D_constructor False attrs_2x2_same) view_5x5x1)
     = Some (3, 3, 1) \<and>
   inputPadding (calcOutputShape (Pooling2D_constructor False attrs_2x2_same) view_5x5x1)
     = Some (0, 1, 0, 1)"
proof -
  have a: "spec_outSame 5 2 = 3" by (simp add: spec_outSame_def)
  have b: "spec_padTotal 5 2 2 = 1" by (simp add: spec_padTotal_def a)
  have c: "spec_before 1 = 0" "spec_after 1 = 1" by (simp_all add: spec_before_def spec_after_def)
  show ?thesis
    using calcOutputShape_same
      [of "Pooling2D_constructor False attrs_2x2_same" view_5x5x1 5 5 1 2 2 2 2]
    by (simp add: Pooling2D_constructor_fields attrs_2x2_same_def view_5x5x1_def a b c)
qed

text \<open>
  Claim C2.  In \<open>valid\<close> mode, for positive sizes, \<open>_calcOutputShape\<close> stores the output
  size \<open>floor((H - kh + sh) / sh)\<close> by \<open>floor((W - kw + sw) / sw)\<close>, and the four padding
  fields are 0.
\<close>

theorem calcOutputShape_valid:
  assumes "borderMode L = ''valid''" and "shape x = (H, W, C)"
    and "poolSize L = (kh, kw)" and "strides L = (sh, sw)"
    and "0 < H" and "0 < W" and "0 < kh" and "0 < kw" and "0 < sh" and "0 < sw"
  shows "outputShape (calcOutputShape L x)
           = Some (spec_outValid H kh sh, spec_outValid W kw sw, C) \<and>
         inputPadding (calcOutputShape L x) = Some (0, 0, 0, 0)"
proof -
  have out: "spec_outValid H kh sh = (H - kh + sh) div sh"
    "spec_outValid W kw sw = (W - kw + sw) div sw"
    by (simp_all only: spec_outValid_def floor_divide_of_int_eq)
  show ?thesis
    using assms(1-4) by (simp add: calcOutputShape_def out Let_def)
qed

theorem calcOutputShape_valid_witness:
  "outputShape (calcOutputShape (Pooling2D_constructor False attrs_2x2_valid) view_4x4x1)
     = Some (2, 2, 1) \<and>
   inputPadding (calcOutputShape (Pooling2D_constructor False attrs_2x2_valid) view_4x4x1)
     = Some (0, 0, 0, 0)"
proof -
  have a: "spec_outValid 4 2 2 = 2" by (simp add: spec_outValid_def)
  show ?thesis
    using calcOutputShape_valid
      [of "Pooling2D_constructor False attrs_2x2_valid" view_4x4x1 4 4 1 2 2 2 2]
    by (simp add: Pooling2D_constructor_fields attrs_2x2_valid_def view_4x4x1_def a)
qed

section \<open>The failure of \<open>call\<close>\<close>

lemma padInput_calc_not_error: "padInput (calcOutputShape L x) h x' \<noteq> Inl e"
  by (simp add: padInput_def calcOutputShape_def Let_def split: prod.splits)

lemma calcOutputShape_frame:
  "poolSize (calcOutputShape L x) = poolSize L"
  "strides (calcOutputShape L x) = strides L"
  "borderMode (calcOutputShape L x) = borderMode L"
  "dimOrdering (calcOutputShape L x) = dimOrdering L"
  "poolingFunc (calcOutputShape L x) = poolingFunc L"
  by (simp_all add: calcOutputShape_def Let_def split: prod.splits)

lemma calcOutputShape_sets:
  "\<exists>outShape padding. outputShape (calcOutputShape L x) = Some outShape \<and>
     inputPadding (calcOutputShape L x) = Some padding"
  by (simp add: calcOutputShape_def Let_def split: prod.splits)

lemma call_unfold:
  assumes f: "poolingFunc L = ''max'' \<or> poolingFunc L = ''average''"
    and x1: "x1 = (if dimOrdering L = ''th'' then transpose_120 x else x)"
    and L1: "L1 = calcOutputShape L x1"
    and p: "padInput L1 h x1 = Inr (h1, x2)"
    and os: "outputShape L1 = Some outShape" and ip: "inputPadding L1 = Some padding"
    and y: "newTensor h1 outShape = (h2, y)"
    and pt: "newTensor h2 (fst (poolSize L), snd (poolSize L), snd (snd (shape x2))) = (h3, patch)"
  shows "call L h x =
     (case poolLoops L1 x2 y patch padding h3 of
        None \<Rightarrow> None
      | Some h4 \<Rightarrow> Some (Inr (if dimOrdering L = ''th'' then transpose_201 y else y), L1, h4))"
proof -
  have ps: "poolSize L1 = poolSize L" and d: "dimOrdering L1 = dimOrdering L"
    by (simp_all add: L1 calcOutputShape_frame)
  obtain inputRows inputCols inputChannels where s: "shape x2 = (inputRows, inputCols, inputChannels)"
    by (cases "shape x2") auto
  obtain nbRow nbCol where k: "poolSize L = (nbRow, nbCol)"
    by (cases "poolSize L") auto
  from f have nf: "\<not> (poolingFunc L \<noteq> ''max'' \<and> poolingFunc L \<noteq> ''average'')" by blast
  have "call L h x =
     (case padInput L1 h x1 of
             Inl e \<Rightarrow> Some (Inl e, L1, h)
           | Inr (h1, x2) \<Rightarrow>
               (case (shape x2, poolSize L1, outputShape L1, inputPadding L1) of
                  ((inputRows, inputCols, inputChannels), (nbRow, nbCol), Some outShape, Some padding) \<Rightarrow>
                    let (h2, y) = newTensor h1 outShape;
                        (h3, patch) = newTensor h2 (nbRow, nbCol, inputChannels)
                    in (case poolLoops L1 x2 y patch padding h3 of
                          None \<Rightarrow> None
                        | Some h4 \<Rightarrow>
                            Some (Inr (if dimOrdering L1 = ''th'' then transpose_201 y else y),
                                  L1, h4))
                | _ \<Rightarrow> Some (Inl TypeError, L1, h1)))"
    unfolding call_def Let_def x1 L1 using nf by (simp only: if_False)
  also have "\<dots> = (case poolLoops L1 x2 y patch padding h3 of
        None \<Rightarrow> None
      | Some h4 \<Rightarrow> Some (Inr (if dimOrdering L = ''th'' then transpose_201 y else y), L1, h4))"
    using pt y by (simp add: p s ps k os ip d)
  finally show ?thesis .
qed

lemma call_valid_func_not_error:
  assumes "poolingFunc L = ''max'' \<or> poolingFunc L = ''average''"
  shows "call L h x \<noteq> Some (Inl e, L', h')"
proof -
  define x1 where "x1 = (if dimOrdering L = ''th'' then transpose_120 x else x)"
  define L1 where "L1 = calcOutputShape L x1"
  obtain h1 x2 where p: "padInput L1 h x1 = Inr (h1, x2)"
    using padInput_calc_not_error [of L x1 h x1] unfolding L1_def
    by (cases "padInput (calcOutputShape L x1) h x1") auto
  obtain outShape padding where os: "outputShape L1 = Some outShape" "inputPadding L1 = Some padding"
    using calcOutputShape_sets [of L x1] unfolding L1_def by blast
  obtain h2 y where y: "newTensor h1 outShape = (h2, y)"
    by (cases "newTensor h1 outShape") auto
  obtain h3 patch where pt: "newTensor h2 (fst (poolSize L), snd (poolSize L), snd (snd (shape x2))) = (h3, patch)"
    by (cases "newTensor h2 (fst (poolSize L), snd (poolSize L), snd (snd (shape x2)))") auto
  show ?thesis
    unfolding call_unfold [OF assms x1_def L1_def p os y pt]
    by (simp split: option.splits)
qed

text \<open>
  Claim C7.  \<open>call\<close> fails with the invalid-configuration error exactly when the pooling
  function is neither \<open>max\<close> nor \<open>average\<close>; it fails with nothing else, and when it fails
  the layer and the heap are as they were before the call: no shape has been derived, no
  tensor allocated or written.
\<close>

theorem call_InvalidConfiguration:
  "((\<exists>L' h'. call L h x = Some (Inl InvalidConfiguration, L', h')) =
      (poolingFunc L \<noteq> ''max'' \<and> poolingFunc L \<noteq> ''average'')) \<and>
   (\<forall>e L' h'. call L h x = Some (Inl e, L', h') \<longrightarrow>
      e = InvalidConfiguration \<and> L' = L \<and> h' = h)"
proof (cases "poolingFunc L \<noteq> ''max'' \<and> poolingFunc L \<noteq> ''average''")
  case True
  then have "call L h x = Some (Inl InvalidConfiguration, L, h)"
    by (simp add: call_def)
  with True show ?thesis by simp
next
  case False
  then have "\<And>e L' h'. call L h x \<noteq> Some (Inl e, L', h')"
    using call_valid_func_not_error by blast
  with False show ?thesis by simp
qed

theorem call_InvalidConfiguration_witness:
  "call layer_median [] view_4x4x1 = Some (Inl InvalidConfiguration, layer_median, [])"
proof -
  have f: "poolingFunc layer_median \<noteq> ''max'' \<and> poolingFunc layer_median \<noteq> ''average''"
    by (simp add: layer_median_def)
  from call_InvalidConfiguration [of layer_median "[]" view_4x4x1] f
  obtain L' h' where c: "call layer_median [] view_4x4x1 = Some (Inl InvalidConfiguration, L', h')"
    and u: "\<forall>e L' h'. call layer_median [] view_4x4x1 = Some (Inl e, L', h') \<longrightarrow>
      e = InvalidConfiguration \<and> L' = layer_median \<and> h' = []"
    by blast
  from u c have "L' = layer_median \<and> h' = []" by blast
  with c show ?thesis by simp
qed

text \<open>
  Claim C9.  Whatever the attributes (also attributes with more keys than the constructor
  reads), the layer the constructor returns has the pooling function \<open>max\<close>, and \<open>call\<close> on
  that layer never fails with the invalid-configuration error.
\<close>

theorem Pooling2D_constructor_max:
  "poolingFunc (Pooling2D_constructor weblas ats) = ''max'' \<and>
   (\<forall>h x L' h'. call (Pooling2D_constructor weblas ats) h x
      \<noteq> Some (Inl InvalidConfiguration, L', h'))"
  using call_valid_func_not_error [of "Pooling2D_constructor weblas ats"]
  by (simp add: Pooling2D_constructor_fields)

theorem Pooling2D_constructor_max_witness:
  "poolingFunc (Pooling2D_constructor True attrs_average) = ''max'' \<and>
   call (Pooling2D_constructor True attrs_average) [] view_4x4x1
     \<noteq> Some (Inl InvalidConfiguration, layer_median, [])"
  using Pooling2D_constructor_max [of True attrs_average] by simp

section \<open>The base layer's \<open>call\<close>\<close>

text \<open>
  Claim C10.  \<open>Layer.call\<close> returns the tensor it is given, and leaves the layer and the
  heap as they were.
\<close>

theorem Layer_call_identity:
  "Layer_call L h x = (x, L, h)"
  by (simp add: Layer_call_def)

section \<open>The loops over the window positions\<close>

lemma iterations_0: "0 < step \<Longrightarrow> \<not> i \<le> upper \<Longrightarrow> iterations upper step i = 0"
proof -
  assume s: "0 < step" and "\<not> i \<le> upper"
  then have "upper - i < 0" by simp
  then have "(upper - i) div step < 0" using s by (simp add: div_neg_pos_less0)
  then show ?thesis by (simp add: iterations_def)
qed

lemma iterations_Suc:
  "0 < step \<Longrightarrow> i \<le> upper \<Longrightarrow> iterations upper step i = Suc (iterations upper step (i + step))"
proof -
  assume s: "0 < step" and le: "i \<le> upper"
  have "(upper - i) div step = (upper - (i + step)) div step + 1"
  proof -
    have "upper - i = (upper - (i + step)) + step" by simp
    then show ?thesis using s by (metis div_add_self2 less_irrefl)
  qed
  moreover have "0 \<le> (upper - i) div step" using s le by (simp add: pos_imp_zdiv_nonneg_iff)
  ultimately show ?thesis by (simp add: iterations_def nat_add_distrib)
qed

lemma forStride_Some:
  assumes "0 < step"
  shows "forStride upper step (\<lambda>i i' s. Some (f i i' s)) i i' s =
     Some (foldl (\<lambda>s k. f (i + int k * step) (i' + int k) s) s [0..<iterations upper step i])"
proof (induction "iterations upper step i" arbitrary: i i' s)
  case 0
  then have "\<not> i \<le> upper" using iterations_Suc [OF assms] by (metis nat.distinct(1))
  then show ?case using 0 by (subst forStride.simps) simp
next
  case (Suc n)
  then have le: "i \<le> upper" using iterations_0 [OF assms] by (metis nat.distinct(1))
  then have n: "n = iterations upper step (i + step)"
    using Suc(2) iterations_Suc [OF assms le] by simp
  have sh: "[0..<Suc n] = 0 # map Suc [0..<n]"
    by (simp add: upt_conv_Cons map_Suc_upt del: upt_Suc)
  have "forStride upper step (\<lambda>i i' s. Some (f i i' s)) i i' s =
        forStride upper step (\<lambda>i i' s. Some (f i i' s)) (i + step) (i' + 1) (f i i' s)"
    using le by (subst forStride.simps) simp
  also have "\<dots> = Some (foldl (\<lambda>s k. f (i + step + int k * step) (i' + 1 + int k) s) (f i i' s) [0..<n])"
    using Suc(1) [OF n] n by simp
  also have "\<dots> = Some (foldl (\<lambda>s k. f (i + int k * step) (i' + int k) s) s [0..<Suc n])"
    unfolding sh by (simp add: foldl_map algebra_simps del: upt_Suc)
  finally show ?case using Suc(2) by simp
qed

text \<open>With a step that is not positive, a loop whose condition holds never returns.\<close>

lemma forStride_Some_imp:
  assumes "forStride upper step body i i' s = Some r"
  shows "(\<forall>j j' t. body j j' t \<noteq> None) \<and> step \<le> 0 \<longrightarrow> \<not> i \<le> upper"
proof (rule forStride.raw_induct
    [where P = "\<lambda>upper step body i i' s r.
       (\<forall>j j' t. body j j' t \<noteq> None) \<and> step \<le> 0 \<longrightarrow> \<not> i \<le> upper", OF _ assms])
  fix loop :: "int \<Rightarrow> int \<Rightarrow> (int \<Rightarrow> int \<Rightarrow> 'a \<Rightarrow> 'a option) \<Rightarrow> int \<Rightarrow> int \<Rightarrow> 'a \<Rightarrow> 'a option"
    and upper step body i i' s r
  assume IH: "\<And>upper step body i i' s r. loop upper step body i i' s = Some r \<Longrightarrow>
      (\<forall>j j' t. body j j' t \<noteq> None) \<and> step \<le> 0 \<longrightarrow> \<not> i \<le> upper"
    and eq: "(if i \<le> upper then Option.bind (body i i' s) (loop upper step body (i + step) (i' + 1))
         else Some s) = Some r"
  show "(\<forall>j j' t. body j j' t \<noteq> None) \<and> step \<le> 0 \<longrightarrow> \<not> i \<le> upper"
  proof (intro impI notI)
    assume a: "(\<forall>j j' t. body j j' t \<noteq> None) \<and> step \<le> 0" and le: "i \<le> upper"
    from a have "body i i' s \<noteq> None" by blast
    then obtain s1 where b: "body i i' s = Some s1" by blast
    from eq le b have "loop upper step body (i + step) (i' + 1) s1 = Some r" by simp
    from IH [OF this] a have "\<not> i + step \<le> upper" by blast
    with a le show False by simp
  qed
qed

lemma forStride_diverges:
  assumes "step \<le> 0" and "i \<le> upper"
  shows "forStride upper step (\<lambda>i i' s. Some (f i i' s)) i i' s = None"
proof (cases "forStride upper step (\<lambda>i i' s. Some (f i i' s)) i i' s")
  case None
  then show ?thesis .
next
  case (Some r)
  from forStride_Some_imp [OF this] assms show ?thesis by simp
qed

lemma foldl_snoc_map: "foldl (\<lambda>ps k. ps @ [g k]) ps ks = ps @ map g ks"
  by (induction ks arbitrary: ps) auto

lemma foldl_append_concat: "foldl (\<lambda>ps a. ps @ G a) ps as = ps @ concat (map G as)"
  by (induction as arbitrary: ps) auto

lemma foldl_concat_map: "foldl f s (concat (map G as)) = foldl (\<lambda>s a. foldl f s (G a)) s as"
  by (induction as arbitrary: s) auto

lemma length_positions: "length (positions sh sw nr nc) = nr * nc"
  by (simp add: positions_def length_concat comp_def sum_list_triv)

lemma windowPositions_eq:
  assumes "shape x = (R, Q, ch)" and "poolSize L = (kh, kw)" and "strides L = (sh, sw)"
    and "0 < sh" and "0 < sw"
  shows "windowPositions L x =
     Some (positions sh sw (iterations (R - kh) sh 0) (iterations (Q - kw) sw 0))"
  using assms
  by (simp add: windowPositions_def forStride_Some foldl_snoc_map foldl_append_concat positions_def)

lemma poolLoops_eq:
  assumes "shape x = (R, Q, ch)" and "poolSize L = (kh, kw)" and "strides L = (sh, sw)"
    and "0 < sh" and "0 < sw"
  shows "poolLoops L x y patch (prb, pra, pcb, pca) h =
     Some (foldl (\<lambda>h' (i, j). poolWindow L x y patch i (i div sh) j (j div sw)
                    (kh - nbRowInPadding i kh R prb pra) (kw - nbColInPadding j kw Q pcb pca) h')
             h (positions sh sw (iterations (R - kh) sh 0) (iterations (Q - kw) sw 0)))"
  using assms
  by (simp add: poolLoops_def forStride_Some positions_def foldl_concat_map foldl_map Let_def)

lemma int_le_div_iff:
  assumes "0 < (s::int)"
  shows "(n \<le> u div s) = (n * s \<le> u)"
proof -
  have "u div s = \<lfloor>real_of_int u / real_of_int s\<rfloor>"
    by (simp only: floor_divide_of_int_eq)
  then have "(n \<le> u div s) = (real_of_int n \<le> real_of_int u / real_of_int s)"
    by (simp only: le_floor_iff)
  also have "\<dots> = (real_of_int n * real_of_int s \<le> real_of_int u)"
    using assms by (simp add: pos_le_divide_eq)
  also have "\<dots> = (n * s \<le> u)"
    by (simp only: of_int_le_iff flip: of_int_mult)
  finally show ?thesis .
qed

lemma iterations_bound:
  assumes "0 < step"
  shows "(a < iterations upper step 0) = (int a * step \<le> upper)"
proof -
  have "(a < iterations upper step 0) = (int a < upper div step + 1)"
    by (auto simp add: iterations_def)
  also have "\<dots> = (int a \<le> upper div step)" by auto
  also have "\<dots> = (int a * step \<le> upper)"
    using assms by (rule int_le_div_iff)
  finally show ?thesis .
qed

lemma valid_iterations:
  assumes "0 < (s::int)"
  shows "(n - k) div s + 1 = (n - k + s) div s"
  using assms by simp

lemma same_iterations:
  assumes "0 < (n::int)" and "0 < k" and "0 < s"
  shows "(n + max 0 (((n + s - 1) div s - 1) * s + k - n) - k) div s + 1 = (n + s - 1) div s"
proof -
  define q where "q = (n - 1) div s"
  define r where "r = (n - 1) mod s"
  have n: "n = q * s + r + 1" unfolding q_def r_def by simp
  have r: "0 \<le> r" "r < s" using assms(3) by (simp_all add: r_def)
  have out: "(n + s - 1) div s = q + 1"
  proof -
    have "n + s - 1 = (n - 1) + s" by simp
    then show ?thesis using assms(3) unfolding q_def by (metis div_add_self2 less_irrefl)
  qed
  show ?thesis
  proof (cases "0 \<le> q * s + k - n")
    case True
    then have "n + max 0 (((n + s - 1) div s - 1) * s + k - n) - k = q * s"
      by (simp add: out)
    then show ?thesis using assms(3) by (simp add: out)
  next
    case False
    then have kr: "k \<le> r" using n by simp
    from False have "n + max 0 (((n + s - 1) div s - 1) * s + k - n) - k = n - k"
      by (simp add: out)
    moreover have "(n - k) div s = q"
    proof (rule int_div_pos_eq)
      show "n - k = s * q + (r + 1 - k)" using n by (simp add: algebra_simps)
      show "0 \<le> r + 1 - k" using kr by simp
      show "r + 1 - k < s" using r assms(2) by simp
    qed
    ultimately show ?thesis by (simp add: out)
  qed
qed

lemma padInput_not_same: "borderMode L \<noteq> ''same'' \<Longrightarrow> padInput L h x = Inr (h, x)"
  by (simp add: padInput_def)

lemma padInput_same_view:
  assumes "borderMode L = ''same''" and "inputPadding L = Some (prb, pra, pcb, pca)"
    and "shape x = (H, W, C)" and "padInput L h x = Inr (h1, x2)"
  shows "x2 = \<lparr>data = length h, shape = (H + prb + pra, W + pcb + pca, C),
               stride = ((W + pcb + pca) * C, C, 1), offset = 0\<rparr>"
  using assms by (auto simp add: padInput_def newTensor_def Let_def)

lemma calcOutputShape_fields:
  assumes "shape x = (H, W, C)" and "poolSize L = (kh, kw)" and "strides L = (sh, sw)"
  shows "outputShape (calcOutputShape L x) =
           Some (if borderMode L = ''same'' then (H + sh - 1) div sh else (H - kh + sh) div sh,
                 if borderMode L = ''same'' then (W + sw - 1) div sw else (W - kw + sw) div sw, C)"
    and "inputPadding (calcOutputShape L x) =
           (if borderMode L = ''same'' then
              Some (max 0 (((H + sh - 1) div sh - 1) * sh + kh - H) div 2,
                    max 0 (((H + sh - 1) div sh - 1) * sh + kh - H)
                      - max 0 (((H + sh - 1) div sh - 1) * sh + kh - H) div 2,
                    max 0 (((W + sw - 1) div sw - 1) * sw + kw - W) div 2,
                    max 0 (((W + sw - 1) div sw - 1) * sw + kw - W)
                      - max 0 (((W + sw - 1) div sw - 1) * sw + kw - W) div 2)
            else Some (0, 0, 0, 0))"
  using assms by (simp_all add: calcOutputShape_def Let_def)

lemma padded_iterations:
  assumes "shape x = (H, W, C)" and "poolSize L = (kh, kw)" and "strides L = (sh, sw)"
    and "0 < H" and "0 < W" and "0 < kh" and "0 < kw" and "0 < sh" and "0 < sw"
    and "padInput (calcOutputShape L x) h x = Inr (h1, x2)"
    and "shape x2 = (paddedH, paddedW, C2)"
    and "outputShape (calcOutputShape L x) = Some (outH, outW, C3)"
  shows "iterations (paddedH - kh) sh 0 = nat outH" and "iterations (paddedW - kw) sw 0 = nat outW"
proof -
  let ?L = "calcOutputShape L x"
  note flds = calcOutputShape_fields [OF assms(1-3)]
  show "iterations (paddedH - kh) sh 0 = nat outH"
  proof (cases "borderMode L = ''same''")
    case True
    then have b: "borderMode ?L = ''same''" by (simp add: calcOutputShape_frame)
    from flds(2) True obtain prb pra pcb pca where ip: "inputPadding ?L = Some (prb, pra, pcb, pca)"
      and r: "prb + pra = max 0 (((H + sh - 1) div sh - 1) * sh + kh - H)"
      by simp
    from padInput_same_view [OF b ip assms(1) assms(10)] assms(11)
    have "paddedH = H + max 0 (((H + sh - 1) div sh - 1) * sh + kh - H)" using r by simp
    moreover have "outH = (H + sh - 1) div sh" using flds(1) assms(12) True by simp
    ultimately show ?thesis
      using same_iterations [OF assms(4) assms(6) assms(8)] by (simp add: iterations_def)
  next
    case False
    then have b: "borderMode ?L \<noteq> ''same''" by (simp add: calcOutputShape_frame)
    from padInput_not_same [OF b, of h x] assms(10) assms(11) assms(1) have "paddedH = H" by simp
    moreover have "outH = (H - kh + sh) div sh" using flds(1) assms(12) False by simp
    ultimately show ?thesis
      using valid_iterations [OF assms(8), of H kh] by (simp add: iterations_def)
  qed
  show "iterations (paddedW - kw) sw 0 = nat outW"
  proof (cases "borderMode L = ''same''")
    case True
    then have b: "borderMode ?L = ''same''" by (simp add: calcOutputShape_frame)
    from flds(2) True obtain prb pra pcb pca where ip: "inputPadding ?L = Some (prb, pra, pcb, pca)"
      and r: "pcb + pca = max 0 (((W + sw - 1) div sw - 1) * sw + kw - W)"
      by simp
    from padInput_same_view [OF b ip assms(1) assms(10)] assms(11)
    have "paddedW = W + max 0 (((W + sw - 1) div sw - 1) * sw + kw - W)" using r by simp
    moreover have "outW = (W + sw - 1) div sw" using flds(1) assms(12) True by simp
    ultimately show ?thesis
      using same_iterations [OF assms(5) assms(7) assms(9)] by (simp add: iterations_def)
  next
    case False
    then have b: "borderMode ?L \<noteq> ''same''" by (simp add: calcOutputShape_frame)
    from padInput_not_same [OF b, of h x] assms(10) assms(11) assms(1) have "paddedW = W" by simp
    moreover have "outW = (W - kw + sw) div sw" using flds(1) assms(12) False by simp
    ultimately show ?thesis
      using valid_iterations [OF assms(9), of W kw] by (simp add: iterations_def)
  qed
qed

lemma out_positive:
  assumes "shape x = (H, W, C)" and "poolSize L = (kh, kw)" and "strides L = (sh, sw)"
    and "0 < H" and "0 < W" and "0 < sh" and "0 < sw"
    and "outputShape (calcOutputShape L x) = Some (outH, outW, C3)"
    and "borderMode L = ''same'' \<or> (kh \<le> H \<and> kw \<le> W)"
  shows "0 < outH \<and> 0 < outW"
proof -
  note flds = calcOutputShape_fields [OF assms(1-3)]
  have a: "0 < (n + s - 1) div s" if "0 < n" "0 < s" for n s :: int
    using that by (simp add: pos_imp_zdiv_pos_iff)
  have b: "0 < (n - k + s) div s" if "k \<le> n" "0 < s" for n k s :: int
    using that by (simp add: pos_imp_zdiv_pos_iff pos_imp_zdiv_nonneg_iff)
  show ?thesis
    using flds(1) assms(8) assms(9) a [OF assms(4) assms(6)] a [OF assms(5) assms(7)] b [OF _ assms(6), of kh H]
      b [OF _ assms(7), of kw W]
    by (auto split: if_splits)
qed

text \<open>
  Claim C4, as amended.  For positive sizes, after the shape derivation and the padding
  step the two loops reach exactly the positions \<open>(a * sh, b * sw)\<close> with
  \<open>a * sh + kh \<le> paddedH\<close> and \<open>b * sw + kw \<le> paddedW\<close>, row by row, and \<open>call\<close>'s loops
  run the window body once at each of them; their number is
  \<open>max(0, outH) * max(0, outW)\<close>, which is \<open>outH * outW\<close> in \<open>same\<close> mode, and in any other
  mode whenever the window fits in the input.
\<close>

theorem windowPositions_count:
  assumes "shape x = (H, W, C)" and "poolSize L = (kh, kw)" and "strides L = (sh, sw)"
    and "0 < H" and "0 < W" and "0 < kh" and "0 < kw" and "0 < sh" and "0 < sw"
    and "padInput (calcOutputShape L x) h x = Inr (h1, x2)"
    and "shape x2 = (paddedH, paddedW, C2)"
    and "outputShape (calcOutputShape L x) = Some (outH, outW, C3)"
  shows "windowPositions (calcOutputShape L x) x2 = Some (positions sh sw (nat outH) (nat outW)) \<and>
         (\<forall>a. (a < nat outH) = (int a * sh + kh \<le> paddedH)) \<and>
         (\<forall>b. (b < nat outW) = (int b * sw + kw \<le> paddedW)) \<and>
         int (length (positions sh sw (nat outH) (nat outW))) = max 0 outH * max 0 outW \<and>
         (borderMode L = ''same'' \<or> (kh \<le> H \<and> kw \<le> W) \<longrightarrow>
            int (length (positions sh sw (nat outH) (nat outW))) = outH * outW) \<and>
         (\<forall>y patch prb pra pcb pca hp.
            poolLoops (calcOutputShape L x) x2 y patch (prb, pra, pcb, pca) hp =
              Some (foldl (\<lambda>h' (i, j). poolWindow (calcOutputShape L x) x2 y patch i (i div sh) j (j div sw)
                      (kh - nbRowInPadding i kh paddedH prb pra)
                      (kw - nbColInPadding j kw paddedW pcb pca) h')
                    hp (positions sh sw (nat outH) (nat outW))))"
proof -
  let ?L = "calcOutputShape L x"
  have k: "poolSize ?L = (kh, kw)" and s: "strides ?L = (sh, sw)"
    using assms(2,3) by (simp_all add: calcOutputShape_frame)
  note it = padded_iterations [OF assms]
  have 1: "windowPositions ?L x2 = Some (positions sh sw (nat outH) (nat outW))"
    using windowPositions_eq [OF assms(11) k s assms(8) assms(9)] it by simp
  have 2: "(a < nat outH) = (int a * sh + kh \<le> paddedH)" for a
    using iterations_bound [OF assms(8), of a "paddedH - kh"] it(1) by (simp add: algebra_simps)
  have 3: "(b < nat outW) = (int b * sw + kw \<le> paddedW)" for b
    using iterations_bound [OF assms(9), of b "paddedW - kw"] it(2) by (simp add: algebra_simps)
  have 4: "int (length (positions sh sw (nat outH) (nat outW))) = max 0 outH * max 0 outW"
    by (simp add: length_positions max_def)
  have 5: "borderMode L = ''same'' \<or> (kh \<le> H \<and> kw \<le> W) \<longrightarrow>
            int (length (positions sh sw (nat outH) (nat outW))) = outH * outW"
  proof
    assume "borderMode L = ''same'' \<or> (kh \<le> H \<and> kw \<le> W)"
    from out_positive [OF assms(1-5) assms(8,9) assms(12) this]
    show "int (length (positions sh sw (nat outH) (nat outW))) = outH * outW"
      by (simp add: length_positions)
  qed
  have 6: "poolLoops ?L x2 y patch (prb, pra, pcb, pca) hp =
              Some (foldl (\<lambda>h' (i, j). poolWindow ?L x2 y patch i (i div sh) j (j div sw)
                      (kh - nbRowInPadding i kh paddedH prb pra)
                      (kw - nbColInPadding j kw paddedW pcb pca) h')
                    hp (positions sh sw (nat outH) (nat outW)))" for y patch prb pra pcb pca hp
    using poolLoops_eq [OF assms(11) k s assms(8) assms(9)] it by simp
  from 1 2 3 4 5 6 show ?thesis by blast
qed

theorem windowPositions_count_witness:
  "windowPositions (calcOutputShape (Pooling2D_constructor False attrs_2x2_same) view_5x5x1) view_6x6x1
     = Some [(0, 0), (0, 2), (0, 4), (2, 0), (2, 2), (2, 4), (4, 0), (4, 2), (4, 4)] \<and>
   int (length (positions 2 2 (nat 3) (nat 3))) = 3 * 3"
proof -
  let ?L = "Pooling2D_constructor False attrs_2x2_same"
  have k: "poolSize ?L = (2, 2)" and s: "strides ?L = (2, 2)" and b: "borderMode ?L = ''same''"
    by (simp_all add: Pooling2D_constructor_fields attrs_2x2_same_def)
  have sx: "shape view_5x5x1 = (5, 5, 1)" by (simp add: view_5x5x1_def)
  note flds = calcOutputShape_fields [OF sx k s]
  have os: "outputShape (calcOutputShape ?L view_5x5x1) = Some (3, 3, 1)"
    using flds(1) b by simp
  have ip: "inputPadding (calcOutputShape ?L view_5x5x1) = Some (0, 1, 0, 1)"
    using flds(2) b by simp
  obtain h1 x2 where p: "padInput (calcOutputShape ?L view_5x5x1) heap_5x5x1 view_5x5x1 = Inr (h1, x2)"
    using padInput_calc_not_error [of ?L view_5x5x1 heap_5x5x1 view_5x5x1]
    by (cases "padInput (calcOutputShape ?L view_5x5x1) heap_5x5x1 view_5x5x1") auto
  have b': "borderMode (calcOutputShape ?L view_5x5x1) = ''same''"
    using b by (simp add: calcOutputShape_frame)
  have x2: "x2 = view_6x6x1"
    using padInput_same_view [OF b' ip sx p] by (simp add: view_6x6x1_def heap_5x5x1_def)
  have s2: "shape x2 = (6, 6, 1)" by (simp add: x2 view_6x6x1_def)
  have pos: "positions 2 2 3 3
      = [(0, 0), (0, 2), (0, 4), (2, 0), (2, 2), (2, 4), (4, 0), (4, 2), (4, 4)]"
    by (simp add: positions_def upt_rec)
  from windowPositions_count [OF sx k s _ _ _ _ _ _ p s2 os] b
  show ?thesis by (simp add: x2 pos)
qed

theorem windowPositions_count_counterexample:
  "padInput (calcOutputShape (Pooling2D_constructor False attrs_3x3_valid) view_1x1x1) [[Fin 6]] view_1x1x1
     = Inr ([[Fin 6]], view_1x1x1) \<and>
   outputShape (calcOutputShape (Pooling2D_constructor False attrs_3x3_valid) view_1x1x1)
     = Some (- 1, - 1, 1) \<and>
   windowPositions (calcOutputShape (Pooling2D_constructor False attrs_3x3_valid) view_1x1x1) view_1x1x1
     = Some [] \<and>
   int (length ([] :: (int \<times> int) list)) \<noteq> (- 1) * (- 1)"
proof -
  let ?L = "Pooling2D_constructor False attrs_3x3_valid"
  have k: "poolSize ?L = (3, 3)" and s: "strides ?L = (1, 1)" and b: "borderMode ?L = ''valid''"
    by (simp_all add: Pooling2D_constructor_fields attrs_3x3_valid_def)
  have sx: "shape view_1x1x1 = (1, 1, 1)" by (simp add: view_1x1x1_def)
  note flds = calcOutputShape_fields [OF sx k s]
  have os: "outputShape (calcOutputShape ?L view_1x1x1) = Some (- 1, - 1, 1)"
    using flds(1) b by simp
  have b': "borderMode (calcOutputShape ?L view_1x1x1) \<noteq> ''same''"
    using b by (simp add: calcOutputShape_frame)
  have k': "poolSize (calcOutputShape ?L view_1x1x1) = (3, 3)"
    and s': "strides (calcOutputShape ?L view_1x1x1) = (1, 1)"
    using k s by (simp_all add: calcOutputShape_frame)
  have w: "windowPositions (calcOutputShape ?L view_1x1x1) view_1x1x1 = Some []"
    using windowPositions_eq [OF sx k' s'] by (simp add: iterations_def positions_def)
  show ?thesis
    using padInput_not_same [OF b'] os w by simp
qed

section \<open>The padding step\<close>

lemma length_buf_set [simp]: "length (buf_set b p v) = length b"
  by (simp add: buf_set_def)

lemma buf_get_buf_set:
  "buf_get (buf_set b p v) q = (if q = p \<and> 0 \<le> p \<and> p < int (length b) then v else buf_get b q)"
  by (auto simp add: buf_get_def buf_set_def nat_eq_iff)

lemma length_set3 [simp]: "length (set3 h a idx v) = length h"
  by (simp add: set3_def)

lemma buf_set3:
  "buf (set3 h a idx v) r =
     (if r = data a then buf_set (buf h r) (flat a idx) v else buf h r)"
  by (auto simp add: set3_def buf_def buf_set_def)

lemma writes_Nil [simp]: "writes h a f [] = h"
  by (simp add: writes_def)

lemma writes_snoc: "writes h a f (ids @ [idx]) = set3 (writes h a f ids) a idx (f idx)"
  by (simp add: writes_def)

lemma length_writes [simp]: "length (writes h a f ids) = length h"
  by (induction ids rule: rev_induct) (simp_all add: writes_snoc)

lemma buf_writes_other: "r \<noteq> data a \<Longrightarrow> buf (writes h a f ids) r = buf h r"
  by (induction ids rule: rev_induct) (simp_all add: writes_snoc buf_set3)

lemma length_buf_writes [simp]: "length (buf (writes h a f ids) r) = length (buf h r)"
  by (induction ids rule: rev_induct) (auto simp add: writes_snoc buf_set3)

lemma buf_writes_miss:
  "p \<notin> flat a ` set ids \<Longrightarrow> buf_get (buf (writes h a f ids) r) p = buf_get (buf h r) p"
  by (induction ids rule: rev_induct) (auto simp add: writes_snoc buf_set3 buf_get_buf_set)

lemma buf_writes_hit:
  assumes "idx \<in> set ids" and "inj_on (flat a) (set ids)"
    and "0 \<le> flat a idx" and "flat a idx < int (length (buf h (data a)))"
  shows "buf_get (buf (writes h a f ids) (data a)) (flat a idx) = f idx"
  using assms
proof (induction ids rule: rev_induct)
  case Nil
  then show ?case by simp
next
  case (snoc j ids)
  show ?case
  proof (cases "flat a idx = flat a j")
    case True
    have "j \<in> set (ids @ [j])" by simp
    from inj_onD [OF snoc.prems(2) True snoc.prems(1) this] have "idx = j" .
    with snoc.prems show ?thesis by (simp add: writes_snoc buf_set3 buf_get_buf_set)
  next
    case False
    with snoc.prems have "idx \<in> set ids" by auto
    moreover from snoc.prems have "inj_on (flat a) (set ids)" by (auto simp add: inj_on_def)
    ultimately have "buf_get (buf (writes h a f ids) (data a)) (flat a idx) = f idx"
      using snoc.IH snoc.prems by blast
    with False show ?thesis by (simp add: writes_snoc buf_set3 buf_get_buf_set)
  qed
qed

lemma get_cong_buf: "buf h' (data b) = buf h (data b) \<Longrightarrow> get h' b idx = get h b idx"
  by (simp add: get_def)

lemma assigns_writes: "assigns h a v = writes h a (\<lambda>_. v) (indices3 (shape a))"
  by (simp add: assigns_def writes_def)

lemma assign_writes_aux:
  assumes "data b \<noteq> data a" and "buf h' (data b) = buf h (data b)"
  shows "foldl (\<lambda>h' idx. set3 h' a idx (get h' b idx)) h' ids = writes h' a (get h b) ids"
  using assms(2)
proof (induction ids arbitrary: h')
  case Nil
  then show ?case by simp
next
  case (Cons idx ids)
  have "buf (set3 h' a idx (get h' b idx)) (data b) = buf h (data b)"
    using assms(1) Cons.prems by (simp add: buf_set3)
  from Cons.IH [OF this] get_cong_buf [OF Cons.prems, of idx] show ?case
    by (simp add: writes_def)
qed

lemma assign_writes:
  "data b \<noteq> data a \<Longrightarrow> assign h a b = writes h a (get h b) (indices3 (shape a))"
  unfolding assign_def by (rule assign_writes_aux) simp_all

lemma set_indices3:
  "set (indices3 (d0, d1, d2)) = {(i, j, k). 0 \<le> i \<and> i < d0 \<and> 0 \<le> j \<and> j < d1 \<and> 0 \<le> k \<and> k < d2}"
  by (fastforce simp add: indices3_def image_iff)

lemma divmod_unique:
  assumes "(n::int) * a + r = n * a' + r'" and "0 \<le> r" and "r < n" and "0 \<le> r'" and "r' < n"
  shows "a = a' \<and> r = r'"
proof -
  have "(n * a + r) div n = a" using assms(2,3) by (simp add: int_div_pos_eq)
  moreover have "(n * a' + r') div n = a'" using assms(4,5) by (simp add: int_div_pos_eq)
  ultimately have "a = a'" using assms(1) by simp
  with assms(1) show ?thesis by simp
qed

lemma rowmajor_inj:
  assumes "(n1 * n2) * i + n2 * j + k = (n1 * n2) * i' + n2 * j' + (k'::int)"
    and "0 \<le> j" and "j < n1" and "0 \<le> k" and "k < n2"
    and "0 \<le> j'" and "j' < n1" and "0 \<le> k'" and "k' < n2"
  shows "i = i' \<and> j = j' \<and> k = k'"
proof -
  have "n2 * (n1 * i + j) + k = n2 * (n1 * i' + j') + k'"
    using assms(1) by (simp add: algebra_simps)
  from divmod_unique [OF this assms(4,5,8,9)]
  have e: "n1 * i + j = n1 * i' + j'" and k: "k = k'" by simp_all
  from divmod_unique [OF e assms(2,3,6,7)] k show ?thesis by simp
qed

lemma rowmajor_range:
  assumes "0 \<le> (i::int)" and "i < n0" and "0 \<le> j" and "j < n1" and "0 \<le> k" and "k < n2"
  shows "0 \<le> (n1 * n2) * i + n2 * j + k" and "(n1 * n2) * i + n2 * j + k < n0 * n1 * n2"
proof -
  have p: "0 \<le> n1 * n2" using assms by simp
  show "0 \<le> (n1 * n2) * i + n2 * j + k" using assms p by simp
  have "n2 * j \<le> n2 * (n1 - 1)" using assms by (intro mult_left_mono) simp_all
  moreover have "(n1 * n2) * (i + 1) \<le> (n1 * n2) * n0"
    using assms p by (intro mult_left_mono) simp_all
  ultimately show "(n1 * n2) * i + n2 * j + k < n0 * n1 * n2"
    using assms(6) by (simp add: algebra_simps)
qed

lemma buf_append_old: "r < length h \<Longrightarrow> buf (h @ [b]) r = buf h r"
  by (simp add: buf_def nth_append)

lemma buf_append_new: "buf (h @ [b]) (length h) = b"
  by (simp add: buf_def)

lemma buf_get_replicate: "0 \<le> p \<Longrightarrow> p < int n \<Longrightarrow> buf_get (replicate n v) p = v"
  by (simp add: buf_get_def)

text \<open>A fresh row-major tensor of a given shape, and its cells after \<open>ops.assigns\<close>.\<close>

lemma flat_rowmajor:
  "flat \<lparr>data = d, shape = s, stride = (n1 * n2, n2, 1), offset = off\<rparr> (i, j, k)
     = off + (n1 * n2) * i + n2 * j + k"
  by (simp add: flat_def)

lemma inj_on_flat_rowmajor:
  "inj_on (flat \<lparr>data = d, shape = s, stride = (n1 * n2, n2, 1), offset = off\<rparr>)
     (set (indices3 (m0, m1, m2)) \<inter> {(i, j, k). j < n1 \<and> k < n2})"
proof (rule inj_onI)
  fix p q :: "int \<times> int \<times> int"
  let ?a = "\<lparr>data = d, shape = s, stride = (n1 * n2, n2, 1), offset = off\<rparr>"
  assume p: "p \<in> set (indices3 (m0, m1, m2)) \<inter> {(i, j, k). j < n1 \<and> k < n2}"
    and q: "q \<in> set (indices3 (m0, m1, m2)) \<inter> {(i, j, k). j < n1 \<and> k < n2}"
    and e: "flat ?a p = flat ?a q"
  obtain i j k where pp: "p = (i, j, k)" by (cases p) auto
  obtain i' j' k' where qq: "q = (i', j', k')" by (cases q) auto
  from e have "(n1 * n2) * i + n2 * j + k = (n1 * n2) * i' + n2 * j' + k'"
    by (simp add: pp qq flat_rowmajor)
  from rowmajor_inj [OF this] p q show "p = q"
    by (simp add: pp qq set_indices3)
qed

lemma padInput_same_unfold:
  assumes "borderMode L = ''same''" and "inputPadding L = Some (prb, pra, pcb, pca)"
    and "shape x = (H, W, C)"
    and "x' = \<lparr>data = length h, shape = (H + prb + pra, W + pcb + pca, C),
               stride = ((W + pcb + pca) * C, C, 1), offset = 0\<rparr>"
    and "h1 = h @ [replicate (nat ((H + prb + pra) * (W + pcb + pca) * C)) (Fin 0)]"
  shows "padInput L h x =
     Inr (assign (if poolingFunc L = ''max'' then assigns h1 x' NegInfinity else h1)
            (lo (hi x' (H + prb, W + pcb, C)) (prb, pcb, 0)) x, x')"
  using assms by (simp add: padInput_def newTensor_def Let_def)

lemma padInput_same_contents:
  assumes same: "borderMode L = ''same''" and ip: "inputPadding L = Some (prb, pra, pcb, pca)"
    and nn: "0 \<le> prb" "0 \<le> pra" "0 \<le> pcb" "0 \<le> pca"
    and sx: "shape x = (H, W, C)" and sz: "0 \<le> H" "0 \<le> W" "0 \<le> C"
    and alloc: "data x < length h"
    and p: "padInput L h x = Inr (h', x')"
    and rg: "0 \<le> r" "r < H + prb + pra" "0 \<le> c" "c < W + pcb + pca" "0 \<le> k" "k < C"
  shows "get h' x' (r, c, k) =
     (if prb \<le> r \<and> r < prb + H \<and> pcb \<le> c \<and> c < pcb + W then get h x (r - prb, c - pcb, k)
      else if poolingFunc L = ''max'' then NegInfinity else Fin 0)"
proof -
  define nR where "nR = H + prb + pra"
  define nC where "nC = W + pcb + pca"
  define xn where "xn = \<lparr>data = length h, shape = (nR, nC, C), stride = (nC * C, C, 1), offset = 0\<rparr>"
  define d where "d = \<lparr>data = length h, shape = (H, W, C), stride = (nC * C, C, 1),
                        offset = (nC * C) * prb + C * pcb\<rparr>"
  define h1 where "h1 = h @ [replicate (nat (nR * nC * C)) (Fin 0)]"
  define fill where "fill = (if poolingFunc L = ''max'' then NegInfinity else Fin 0)"
  define h2 where "h2 = (if poolingFunc L = ''max'' then assigns h1 xn NegInfinity else h1)"
  have dv: "lo (hi xn (H + prb, W + pcb, C)) (prb, pcb, 0) = d"
    using nn sz by (simp add: hi_def lo_def xn_def d_def)
  from padInput_same_unfold [OF same ip sx xn_def [unfolded nR_def nC_def] h1_def [unfolded nR_def nC_def]] p
  have h': "h' = assign h2 d x" and x': "x' = xn"
    by (simp_all add: h2_def dv [unfolded xn_def nR_def nC_def] xn_def nR_def nC_def)
  have dd: "data d = length h" and dxn: "data xn = length h" by (simp_all add: d_def xn_def)
  have ne: "data x \<noteq> data d" using alloc dd by simp
  have h'w: "h' = writes h2 d (get h2 x) (indices3 (H, W, C))"
    using assign_writes [of x d h2] ne h' by (simp add: d_def)
  have len: "int (length (buf h1 (length h))) = nR * nC * C"
    using nn sz by (simp add: h1_def buf_append_new nR_def nC_def)
  have len2: "int (length (buf h2 (length h))) = nR * nC * C"
    using len by (simp add: h2_def assigns_writes)
  have fxn: "flat xn (i, j, l) = (nC * C) * i + C * j + l" for i j l
    by (simp add: xn_def flat_rowmajor)
  have fd: "flat d (i, j, l) = flat xn (i + prb, j + pcb, l)" for i j l
    by (simp add: d_def xn_def flat_def algebra_simps)
  have rng: "0 \<le> flat xn (r, c, k)" "flat xn (r, c, k) < nR * nC * C"
    using rowmajor_range [of r nR c nC k C] rg by (simp_all add: fxn nR_def nC_def)
  \<comment> \<open>the source tensor is not touched\<close>
  have src: "get h2 x idx = get h x idx" for idx
  proof -
    have "buf h2 (data x) = buf h1 (data x)"
      using ne dd by (simp add: h2_def assigns_writes buf_writes_other dxn)
    also have "\<dots> = buf h (data x)" using alloc by (simp add: h1_def buf_append_old)
    finally show ?thesis by (rule get_cong_buf)
  qed
  \<comment> \<open>every cell of the fresh tensor holds the fill value before the copy\<close>
  have before: "buf_get (buf h2 (length h)) (flat xn (r, c, k)) = fill"
  proof (cases "poolingFunc L = ''max''")
    case True
    have mem: "(r, c, k) \<in> set (indices3 (nR, nC, C))"
      using rg by (simp add: set_indices3 nR_def nC_def)
    have "set (indices3 (nR, nC, C)) \<inter> {(i, j, l). j < nC \<and> l < C} = set (indices3 (nR, nC, C))"
      by (auto simp add: set_indices3)
    with inj_on_flat_rowmajor [of "length h" "(nR, nC, C)" nC C 0 nR nC C]
    have inj: "inj_on (flat xn) (set (indices3 (nR, nC, C)))" by (simp add: xn_def)
    have "h2 = writes h1 xn (\<lambda>_. NegInfinity) (indices3 (nR, nC, C))"
      using True by (simp add: h2_def assigns_writes xn_def)
    with buf_writes_hit [OF mem inj, of h1 "\<lambda>_. NegInfinity"] rng len True
    show ?thesis by (simp add: dxn fill_def)
  next
    case False
    then have "buf h2 (length h) = replicate (nat (nR * nC * C)) (Fin 0)"
      by (simp add: h2_def h1_def buf_append_new)
    with rng False show ?thesis by (simp add: buf_get_replicate fill_def)
  qed
  have g: "get h' x' (r, c, k) = buf_get (buf h' (length h)) (flat xn (r, c, k))"
    by (simp add: get_def x' dxn)
  show ?thesis
  proof (cases "prb \<le> r \<and> r < prb + H \<and> pcb \<le> c \<and> c < pcb + W")
    case True
    let ?idx = "(r - prb, c - pcb, k)"
    have mem: "?idx \<in> set (indices3 (H, W, C))" using True rg by (simp add: set_indices3)
    have inj: "inj_on (flat d) (set (indices3 (H, W, C)))"
    proof -
      have "set (indices3 (H, W, C)) \<inter> {(i, j, l). j < nC - pcb \<and> l < C} = set (indices3 (H, W, C))"
        using nn by (auto simp add: set_indices3 nC_def)
      moreover have "inj_on (flat d) (set (indices3 (H, W, C)) \<inter> {(i, j, l). j < nC - pcb \<and> l < C})"
      proof (rule inj_onI)
        fix p q :: "int \<times> int \<times> int"
        assume p: "p \<in> set (indices3 (H, W, C)) \<inter> {(i, j, l). j < nC - pcb \<and> l < C}"
          and q: "q \<in> set (indices3 (H, W, C)) \<inter> {(i, j, l). j < nC - pcb \<and> l < C}"
          and e: "flat d p = flat d q"
        obtain i j l where pp: "p = (i, j, l)" by (cases p) auto
        obtain i' j' l' where qq: "q = (i', j', l')" by (cases q) auto
        from e have "(nC * C) * (i + prb) + C * (j + pcb) + l = (nC * C) * (i' + prb) + C * (j' + pcb) + l'"
          by (simp add: pp qq fd fxn)
        from rowmajor_inj [OF this] p q nn show "p = q"
          by (simp add: pp qq set_indices3)
      qed
      ultimately show ?thesis by simp
    qed
    have fl: "flat d ?idx = flat xn (r, c, k)" by (simp add: fd)
    have "buf_get (buf h' (data d)) (flat d ?idx) = get h2 x ?idx"
      unfolding h'w using mem inj rng len2 by (intro buf_writes_hit) (simp_all add: fl dd)
    then show ?thesis using True by (simp add: g fl dd src)
  next
    case False
    have "flat xn (r, c, k) \<notin> flat d ` set (indices3 (H, W, C))"
    proof
      assume "flat xn (r, c, k) \<in> flat d ` set (indices3 (H, W, C))"
      then obtain i j l where m: "(i, j, l) \<in> set (indices3 (H, W, C))"
        and e: "flat xn (r, c, k) = flat d (i, j, l)" by auto
      from e have "(nC * C) * r + C * c + k = (nC * C) * (i + prb) + C * (j + pcb) + l"
        by (simp add: fd fxn)
      from rowmajor_inj [OF this] m rg nn have "r = i + prb \<and> c = j + pcb"
        by (simp add: set_indices3 nC_def)
      with m False show False by (simp add: set_indices3)
    qed
    from buf_writes_miss [OF this, of h2 "get h2 x" "length h"]
    have "buf_get (buf h' (length h)) (flat xn (r, c, k)) = buf_get (buf h2 (length h)) (flat xn (r, c, k))"
      by (simp add: h'w)
    with before have "get h' x' (r, c, k) = fill" by (simp add: g)
    then show ?thesis by (subst if_not_P [OF False]) (simp add: fill_def)
  qed
qed

lemma foldl_set3_frame:
  "length (foldl (\<lambda>h' idx. set3 h' a idx (g h' idx)) h ids) = length h \<and>
   (r \<noteq> data a \<longrightarrow> buf (foldl (\<lambda>h' idx. set3 h' a idx (g h' idx)) h ids) r = buf h r)"
  by (induction ids rule: rev_induct) (simp_all add: buf_set3)

lemma assign_frame:
  "length (assign h a b) = length h" "r \<noteq> data a \<Longrightarrow> buf (assign h a b) r = buf h r"
  using foldl_set3_frame [of a "\<lambda>h' idx. get h' b idx" h "indices3 (shape a)" r]
  by (simp_all add: assign_def)

lemma assigns_frame:
  "length (assigns h a v) = length h" "r \<noteq> data a \<Longrightarrow> buf (assigns h a v) r = buf h r"
  using foldl_set3_frame [of a "\<lambda>h' idx. v" h "indices3 (shape a)" r]
  by (simp_all add: assigns_def)

lemma padInput_same_frame:
  assumes "borderMode L = ''same''" and "padInput L h x = Inr (h', x')"
  shows "length h' = Suc (length h) \<and> data x' = length h \<and> (\<forall>r<length h. buf h' r = buf h r)"
proof -
  obtain H W C where sx: "shape x = (H, W, C)" by (cases "shape x") auto
  from assms obtain prb pra pcb pca where ip: "inputPadding L = Some (prb, pra, pcb, pca)"
    by (cases "inputPadding L") (auto simp add: padInput_def sx)
  define xn where "xn = \<lparr>data = length h, shape = (H + prb + pra, W + pcb + pca, C),
               stride = ((W + pcb + pca) * C, C, 1), offset = 0\<rparr>"
  define h1 where "h1 = h @ [replicate (nat ((H + prb + pra) * (W + pcb + pca) * C)) (Fin 0)]"
  define h2 where "h2 = (if poolingFunc L = ''max'' then assigns h1 xn NegInfinity else h1)"
  define d where "d = lo (hi xn (H + prb, W + pcb, C)) (prb, pcb, 0)"
  from padInput_same_unfold [OF assms(1) ip sx xn_def h1_def] assms(2)
  have h': "h' = assign h2 d x" and x': "x' = xn" by (simp_all add: h2_def d_def)
  have dd: "data d = length h" by (simp add: d_def hi_def lo_def xn_def)
  have dxn: "data xn = length h" by (simp add: xn_def)
  have l2: "length h2 = Suc (length h)" by (simp add: h2_def assigns_frame h1_def)
  have "buf h' r = buf h r" if "r < length h" for r
  proof -
    from that have ne: "r \<noteq> length h" by simp
    have "buf h' r = buf h2 r" using ne by (simp add: h' assign_frame dd)
    also have "\<dots> = buf h1 r" using ne by (simp add: h2_def assigns_frame dxn)
    also have "\<dots> = buf h r" using that by (simp add: h1_def buf_append_old)
    finally show ?thesis .
  qed
  then show ?thesis by (simp add: h' x' dxn assign_frame l2)
qed

text \<open>
  Claim C5.  In \<open>same\<close> mode, for an input that lives in the heap and non-negative
  padding, the padding step returns, for every pooling function: it yields a tensor in a
  fresh typed array, of shape
  \<open>(H + padRowBefore + padRowAfter, W + padColBefore + padColAfter, C)\<close>, and leaves the
  typed arrays that existed before as they were.  The cell at \<open>(r, c, k)\<close> holds the
  input's cell \<open>(r - padRowBefore, c - padColBefore, k)\<close> inside the region
  \<open>[padRowBefore, padRowBefore + H) \<times> [padColBefore, padColBefore + W)\<close>, and outside it
  negative infinity when the pooling function is \<open>max\<close> and zero otherwise (so for
  \<open>average\<close>).
\<close>

theorem padInput_same_padded:
  assumes "borderMode L = ''same''" and "inputPadding L = Some (prb, pra, pcb, pca)"
    and "0 \<le> prb" and "0 \<le> pra" and "0 \<le> pcb" and "0 \<le> pca"
    and "shape x = (H, W, C)" and "0 \<le> H" and "0 \<le> W" and "0 \<le> C"
    and "data x < length h"
  shows "\<exists>h' x'. padInput L h x = Inr (h', x') \<and>
     data x' = length h \<and> length h' = Suc (length h) \<and> (\<forall>r<length h. buf h' r = buf h r) \<and>
     shape x' = (H + prb + pra, W + pcb + pca, C) \<and>
     (\<forall>r c k. 0 \<le> r \<and> r < H + prb + pra \<and> 0 \<le> c \<and> c < W + pcb + pca \<and> 0 \<le> k \<and> k < C \<longrightarrow>
        get h' x' (r, c, k) =
          (if prb \<le> r \<and> r < prb + H \<and> pcb \<le> c \<and> c < pcb + W
           then get h x (r - prb, c - pcb, k)
           else if poolingFunc L = ''max'' then NegInfinity else Fin 0))"
proof -
  from padInput_same_unfold [OF assms(1,2,7) refl refl, of h]
  obtain h' x' where p: "padInput L h x = Inr (h', x')" by blast
  note fr = padInput_same_frame [OF assms(1) p]
  have s: "shape x' = (H + prb + pra, W + pcb + pca, C)"
    using padInput_same_view [OF assms(1,2,7) p] by simp
  have c: "get h' x' (r, c, k) =
          (if prb \<le> r \<and> r < prb + H \<and> pcb \<le> c \<and> c < pcb + W
           then get h x (r - prb, c - pcb, k)
           else if poolingFunc L = ''max'' then NegInfinity else Fin 0)"
    if "0 \<le> r \<and> r < H + prb + pra \<and> 0 \<le> c \<and> c < W + pcb + pca \<and> 0 \<le> k \<and> k < C" for r c k
    using padInput_same_contents [OF assms p, of r c k] that by blast
  from p fr s c show ?thesis by blast
qed

text \<open>
  Claim C6, as amended.  In a mode other than \<open>same\<close> the padding step returns the heap and
  the caller's tensor as they are.  In \<open>same\<close> mode with zero padding it still replaces the
  tensor: the result has the same shape and the same cells, but lives in a fresh typed
  array; the typed arrays that existed before are unchanged.
\<close>

theorem padInput_noop:
  "(borderMode L \<noteq> ''same'' \<longrightarrow> padInput L h x = Inr (h, x)) \<and>
   (borderMode L = ''same'' \<and> inputPadding L = Some (0, 0, 0, 0) \<and> shape x = (H, W, C) \<and>
    0 \<le> H \<and> 0 \<le> W \<and> 0 \<le> C \<and> data x < length h \<longrightarrow>
      (\<exists>h' x'. padInput L h x = Inr (h', x') \<and>
         data x' = length h \<and> data x' \<noteq> data x \<and> shape x' = shape x \<and>
         length h' = Suc (length h) \<and> (\<forall>r<length h. buf h' r = buf h r) \<and>
         (\<forall>r c k. 0 \<le> r \<and> r < H \<and> 0 \<le> c \<and> c < W \<and> 0 \<le> k \<and> k < C \<longrightarrow>
            get h' x' (r, c, k) = get h x (r, c, k))))"
proof (intro conjI impI)
  assume "borderMode L \<noteq> ''same''"
  then show "padInput L h x = Inr (h, x)" by (rule padInput_not_same)
next
  assume a: "borderMode L = ''same'' \<and> inputPadding L = Some (0, 0, 0, 0) \<and> shape x = (H, W, C) \<and>
    0 \<le> H \<and> 0 \<le> W \<and> 0 \<le> C \<and> data x < length h"
  then have same: "borderMode L = ''same''" and ip: "inputPadding L = Some (0, 0, 0, 0)"
    and sx: "shape x = (H, W, C)" and sz: "0 \<le> H" "0 \<le> W" "0 \<le> C" and alloc: "data x < length h"
    by simp_all
  obtain h' x' where p: "padInput L h x = Inr (h', x')"
    using same ip sx by (cases "padInput L h x") (auto simp add: padInput_def Let_def split: prod.splits)
  note fr = padInput_same_frame [OF same p]
  have v: "shape x' = shape x" using padInput_same_view [OF same ip sx p] sx by simp
  have c: "get h' x' (r, c, k) = get h x (r, c, k)"
    if "0 \<le> r \<and> r < H \<and> 0 \<le> c \<and> c < W \<and> 0 \<le> k \<and> k < C" for r c k
    using padInput_same_contents [OF same ip _ _ _ _ sx sz alloc p, of r c k] that by simp
  show "\<exists>h' x'. padInput L h x = Inr (h', x') \<and>
         data x' = length h \<and> data x' \<noteq> data x \<and> shape x' = shape x \<and>
         length h' = Suc (length h) \<and> (\<forall>r<length h. buf h' r = buf h r) \<and>
         (\<forall>r c k. 0 \<le> r \<and> r < H \<and> 0 \<le> c \<and> c < W \<and> 0 \<le> k \<and> k < C \<longrightarrow>
            get h' x' (r, c, k) = get h x (r, c, k))"
    using p fr v c alloc by auto
qed

lemma layer_2x2_same_fields:
  "poolSize (Pooling2D_constructor False attrs_2x2_same) = (2, 2)"
  "strides (Pooling2D_constructor False attrs_2x2_same) = (2, 2)"
  "borderMode (Pooling2D_constructor False attrs_2x2_same) = ''same''"
  "dimOrdering (Pooling2D_constructor False attrs_2x2_same) = ''tf''"
  by (simp_all add: Pooling2D_constructor_fields attrs_2x2_same_def)

lemma layer_2x2_valid_fields:
  "poolSize (Pooling2D_constructor False attrs_2x2_valid) = (2, 2)"
  "strides (Pooling2D_constructor False attrs_2x2_valid) = (2, 2)"
  "borderMode (Pooling2D_constructor False attrs_2x2_valid) = ''valid''"
  "dimOrdering (Pooling2D_constructor False attrs_2x2_valid) = ''tf''"
  by (simp_all add: Pooling2D_constructor_fields attrs_2x2_valid_def)

theorem padInput_same_padded_witness:
  "(\<exists>h' x'. padInput (calcOutputShape layer_average_3x3 view_1x1x1) [[Fin 6]] view_1x1x1
               = Inr (h', x') \<and>
      data x' = 1 \<and> shape x' = (3, 3, 1) \<and> get h' x' (1, 1, 0) = Fin 6 \<and>
      get h' x' (0, 0, 0) = Fin 0 \<and> get h' x' (1, 2, 0) = Fin 0 \<and> get h' x' (2, 1, 0) = Fin 0) \<and>
   (\<exists>h' x'. padInput (calcOutputShape (Pooling2D_constructor False attrs_2x2_same) view_5x5x1)
               heap_5x5x1 view_5x5x1 = Inr (h', x') \<and>
      data x' = 1 \<and> shape x' = (6, 6, 1) \<and> get h' x' (4, 4, 0) = Fin 4 \<and>
      get h' x' (5, 0, 0) = NegInfinity \<and> get h' x' (2, 5, 0) = NegInfinity)"
proof
  let ?L = "calcOutputShape layer_average_3x3 view_1x1x1"
  have fl: "poolSize layer_average_3x3 = (3, 3)" "strides layer_average_3x3 = (1, 1)"
    "borderMode layer_average_3x3 = ''same''" "poolingFunc layer_average_3x3 = ''average''"
    by (simp_all add: layer_average_3x3_def Pooling2D_constructor_fields attrs_3x3_same_def)
  have sx: "shape view_1x1x1 = (1, 1, 1)" by (simp add: view_1x1x1_def)
  have ip: "inputPadding ?L = Some (1, 1, 1, 1)"
    using calcOutputShape_fields(2) [OF sx fl(1,2)] by (simp add: fl)
  have b: "borderMode ?L = ''same''" and f: "poolingFunc ?L = ''average''"
    by (simp_all add: calcOutputShape_frame fl)
  have al: "data view_1x1x1 < length [[Fin 6]]" by (simp add: view_1x1x1_def)
  have g: "get [[Fin 6]] view_1x1x1 (0, 0, 0) = Fin 6"
    by (simp add: get_def buf_def buf_get_def flat_def view_1x1x1_def)
  from padInput_same_padded [OF b ip _ _ _ _ sx _ _ _ al]
  obtain h' x' where p: "padInput ?L [[Fin 6]] view_1x1x1 = Inr (h', x')"
    and d: "data x' = length [[Fin 6]]" and s: "shape x' = (1 + 1 + 1, 1 + 1 + 1, 1)"
    and c: "\<forall>r c k. 0 \<le> r \<and> r < 1 + 1 + 1 \<and> 0 \<le> c \<and> c < 1 + 1 + 1 \<and> 0 \<le> k \<and> k < 1 \<longrightarrow>
        get h' x' (r, c, k) =
          (if 1 \<le> r \<and> r < 1 + 1 \<and> 1 \<le> c \<and> c < 1 + 1
           then get [[Fin 6]] view_1x1x1 (r - 1, c - 1, k)
           else if poolingFunc ?L = ''max'' then NegInfinity else Fin 0)"
    by auto
  have "get h' x' (1, 1, 0) = Fin 6" using c [rule_format, of 1 1 0] g by simp
  moreover have "get h' x' (0, 0, 0) = Fin 0" using c [rule_format, of 0 0 0] f by simp
  moreover have "get h' x' (1, 2, 0) = Fin 0" using c [rule_format, of 1 2 0] f by simp
  moreover have "get h' x' (2, 1, 0) = Fin 0" using c [rule_format, of 2 1 0] f by simp
  ultimately show "\<exists>h' x'. padInput ?L [[Fin 6]] view_1x1x1 = Inr (h', x') \<and>
      data x' = 1 \<and> shape x' = (3, 3, 1) \<and> get h' x' (1, 1, 0) = Fin 6 \<and>
      get h' x' (0, 0, 0) = Fin 0 \<and> get h' x' (1, 2, 0) = Fin 0 \<and> get h' x' (2, 1, 0) = Fin 0"
    using p d s by auto
next
  let ?L = "calcOutputShape (Pooling2D_constructor False attrs_2x2_same) view_5x5x1"
  have sx: "shape view_5x5x1 = (5, 5, 1)" by (simp add: view_5x5x1_def)
  have ip: "inputPadding ?L = Some (0, 1, 0, 1)"
    using calcOutputShape_fields(2) [OF sx layer_2x2_same_fields(1,2)]
    by (simp add: layer_2x2_same_fields)
  have b: "borderMode ?L = ''same''"
    by (simp add: calcOutputShape_frame layer_2x2_same_fields)
  have f: "poolingFunc ?L = ''max''"
    by (simp add: calcOutputShape_frame Pooling2D_constructor_fields)
  have al: "data view_5x5x1 < length heap_5x5x1" by (simp add: view_5x5x1_def heap_5x5x1_def)
  have l: "length heap_5x5x1 = 1" by (simp add: heap_5x5x1_def)
  have g: "get heap_5x5x1 view_5x5x1 (4, 4, 0) = Fin 4"
    by (simp add: get_def buf_def buf_get_def flat_def heap_5x5x1_def view_5x5x1_def)
  from padInput_same_padded [OF b ip _ _ _ _ sx _ _ _ al]
  obtain h' x' where p: "padInput ?L heap_5x5x1 view_5x5x1 = Inr (h', x')"
    and d: "data x' = length heap_5x5x1" and s: "shape x' = (5 + 0 + 1, 5 + 0 + 1, 1)"
    and c: "\<forall>r c k. 0 \<le> r \<and> r < 5 + 0 + 1 \<and> 0 \<le> c \<and> c < 5 + 0 + 1 \<and> 0 \<le> k \<and> k < 1 \<longrightarrow>
        get h' x' (r, c, k) =
          (if 0 \<le> r \<and> r < 0 + 5 \<and> 0 \<le> c \<and> c < 0 + 5
           then get heap_5x5x1 view_5x5x1 (r - 0, c - 0, k)
           else if poolingFunc ?L = ''max'' then NegInfinity else Fin 0)"
    by auto
  have "get h' x' (4, 4, 0) = Fin 4" using c [rule_format, of 4 4 0] g by simp
  moreover have "get h' x' (5, 0, 0) = NegInfinity" using c [rule_format, of 5 0 0] f by simp
  moreover have "get h' x' (2, 5, 0) = NegInfinity" using c [rule_format, of 2 5 0] f by simp
  ultimately show "\<exists>h' x'. padInput ?L heap_5x5x1 view_5x5x1 = Inr (h', x') \<and>
      data x' = 1 \<and> shape x' = (6, 6, 1) \<and> get h' x' (4, 4, 0) = Fin 4 \<and>
      get h' x' (5, 0, 0) = NegInfinity \<and> get h' x' (2, 5, 0) = NegInfinity"
    using p d s l by auto
qed

theorem padInput_noop_witness:
  "padInput (calcOutputShape (Pooling2D_constructor False attrs_2x2_valid) view_4x4x1)
     heap_4x4x1 view_4x4x1 = Inr (heap_4x4x1, view_4x4x1) \<and>
   (\<exists>h' x'. padInput (calcOutputShape (Pooling2D_constructor False attrs_2x2_same) view_4x4x1)
               heap_4x4x1 view_4x4x1 = Inr (h', x') \<and>
      data x' = 1 \<and> shape x' = (4, 4, 1) \<and> buf h' 0 = replicate 16 (Fin 1) \<and>
      get h' x' (3, 3, 0) = Fin 1)"
proof -
  let ?Lv = "calcOutputShape (Pooling2D_constructor False attrs_2x2_valid) view_4x4x1"
  let ?Ls = "calcOutputShape (Pooling2D_constructor False attrs_2x2_same) view_4x4x1"
  have sx: "shape view_4x4x1 = (4, 4, 1)" by (simp add: view_4x4x1_def)
  have bv: "borderMode ?Lv \<noteq> ''same''"
    by (simp add: calcOutputShape_frame layer_2x2_valid_fields)
  have bs: "borderMode ?Ls = ''same''"
    by (simp add: calcOutputShape_frame layer_2x2_same_fields)
  have ip: "inputPadding ?Ls = Some (0, 0, 0, 0)"
    using calcOutputShape_fields(2) [OF sx layer_2x2_same_fields(1,2)]
    by (simp add: layer_2x2_same_fields)
  have al: "data view_4x4x1 < length heap_4x4x1" by (simp add: view_4x4x1_def heap_4x4x1_def)
  have g: "get heap_4x4x1 view_4x4x1 (3, 3, 0) = Fin 1"
    by (simp add: get_def buf_def buf_get_def flat_def heap_4x4x1_def view_4x4x1_def)
  have b0: "buf heap_4x4x1 0 = replicate 16 (Fin 1)" by (simp add: buf_def heap_4x4x1_def)
  have l: "length heap_4x4x1 = 1" by (simp add: heap_4x4x1_def)
  have 1: "padInput ?Lv heap_4x4x1 view_4x4x1 = Inr (heap_4x4x1, view_4x4x1)"
    using padInput_noop [of ?Lv heap_4x4x1 view_4x4x1] bv by blast
  from padInput_noop [of ?Ls heap_4x4x1 view_4x4x1 4 4 1] bs ip sx al
  obtain h' x' where p: "padInput ?Ls heap_4x4x1 view_4x4x1 = Inr (h', x')"
    and d: "data x' = length heap_4x4x1" and s: "shape x' = shape view_4x4x1"
    and fr: "\<forall>r<length heap_4x4x1. buf h' r = buf heap_4x4x1 r"
    and c: "\<forall>r c k. 0 \<le> r \<and> r < 4 \<and> 0 \<le> c \<and> c < 4 \<and> 0 \<le> k \<and> k < 1 \<longrightarrow>
            get h' x' (r, c, k) = get heap_4x4x1 view_4x4x1 (r, c, k)"
    by auto
  from c g have "get h' x' (3, 3, 0) = Fin 1" by simp
  moreover from fr l b0 have "buf h' 0 = replicate 16 (Fin 1)" by simp
  ultimately show ?thesis using 1 p d s sx l by auto
qed

theorem padInput_noop_counterexample:
  "borderMode (calcOutputShape (Pooling2D_constructor False attrs_2x2_same) view_4x4x1) = ''same'' \<and>
   inputPadding (calcOutputShape (Pooling2D_constructor False attrs_2x2_same) view_4x4x1)
     = Some (0, 0, 0, 0) \<and>
   padInput (calcOutputShape (Pooling2D_constructor False attrs_2x2_same) view_4x4x1)
     heap_4x4x1 view_4x4x1 \<noteq> Inr (heap_4x4x1, view_4x4x1)"
proof -
  let ?Ls = "calcOutputShape (Pooling2D_constructor False attrs_2x2_same) view_4x4x1"
  have sx: "shape view_4x4x1 = (4, 4, 1)" by (simp add: view_4x4x1_def)
  have bs: "borderMode ?Ls = ''same''"
    by (simp add: calcOutputShape_frame layer_2x2_same_fields)
  have ip: "inputPadding ?Ls = Some (0, 0, 0, 0)"
    using calcOutputShape_fields(2) [OF sx layer_2x2_same_fields(1,2)]
    by (simp add: layer_2x2_same_fields)
  have "padInput ?Ls heap_4x4x1 view_4x4x1 \<noteq> Inr (heap_4x4x1, view_4x4x1)"
  proof
    assume "padInput ?Ls heap_4x4x1 view_4x4x1 = Inr (heap_4x4x1, view_4x4x1)"
    from padInput_same_frame [OF bs this] show False by simp
  qed
  with bs ip show ?thesis by simp
qed

section \<open>Channels-first tensors\<close>

lemma calcOutputShape_as_update:
  "calcOutputShape L x = L\<lparr>outputShape := outputShape (calcOutputShape L x),
                            inputPadding := inputPadding (calcOutputShape L x)\<rparr>"
proof -
  obtain os ip where e: "calcOutputShape L x = L\<lparr>outputShape := os, inputPadding := ip\<rparr>"
    unfolding calcOutputShape_def Let_def by (cases "shape x"; cases "poolSize L") simp
  show ?thesis unfolding e by simp
qed

lemma calcOutputShape_dimOrdering:
  "calcOutputShape (L\<lparr>dimOrdering := d\<rparr>) x = (calcOutputShape L x)\<lparr>dimOrdering := d\<rparr>"
proof -
  obtain H W C where sx: "shape x = (H, W, C)" by (cases "shape x") auto
  obtain kh kw where k: "poolSize L = (kh, kw)" by (cases "poolSize L") auto
  obtain sh sw where s: "strides L = (sh, sw)" by (cases "strides L") auto
  have k': "poolSize (L\<lparr>dimOrdering := d\<rparr>) = (kh, kw)"
    and s': "strides (L\<lparr>dimOrdering := d\<rparr>) = (sh, sw)"
    using k s by simp_all
  have os: "outputShape (calcOutputShape (L\<lparr>dimOrdering := d\<rparr>) x) = outputShape (calcOutputShape L x)"
    unfolding calcOutputShape_fields(1) [OF sx k s] calcOutputShape_fields(1) [OF sx k' s'] by simp
  have ip: "inputPadding (calcOutputShape (L\<lparr>dimOrdering := d\<rparr>) x) = inputPadding (calcOutputShape L x)"
    unfolding calcOutputShape_fields(2) [OF sx k s] calcOutputShape_fields(2) [OF sx k' s'] by simp
  show ?thesis
    by (subst calcOutputShape_as_update, subst (2) calcOutputShape_as_update) (simp add: os ip)
qed

lemma padInput_dimOrdering: "padInput (L\<lparr>dimOrdering := d\<rparr>) h x = padInput L h x"
  by (simp add: padInput_def Let_def split: prod.splits option.splits)

lemma poolCell_dimOrdering: "poolCell (L\<lparr>dimOrdering := d\<rparr>) = poolCell L"
  by (simp add: poolCell_def fun_eq_iff)

lemma poolWindow_dimOrdering: "poolWindow (L\<lparr>dimOrdering := d\<rparr>) = poolWindow L"
  by (simp add: poolWindow_def fun_eq_iff poolCell_dimOrdering)

lemma poolLoops_dimOrdering: "poolLoops (L\<lparr>dimOrdering := d\<rparr>) = poolLoops L"
  by (simp add: poolLoops_def fun_eq_iff poolWindow_dimOrdering)

lemma transpose_inverse:
  "transpose_201 (transpose_120 a) = a" "transpose_120 (transpose_201 a) = a"
  by (simp_all add: transpose_201_def transpose_120_def split: prod.splits)

lemma get_transpose:
  "get h (transpose_120 a) (i, j, k) = get h a (k, i, j)"
  "get h (transpose_201 a) (k, i, j) = get h a (i, j, k)"
  by (simp_all add: get_def flat_def transpose_120_def transpose_201_def add.assoc add.left_commute
      add.commute split: prod.splits)

lemma shape_transpose_120: "shape a = (d0, d1, d2) \<Longrightarrow> shape (transpose_120 a) = (d1, d2, d0)"
  by (simp add: transpose_120_def split: prod.splits)

lemma shape_transpose_201: "shape a = (d0, d1, d2) \<Longrightarrow> shape (transpose_201 a) = (d2, d0, d1)"
  by (simp add: transpose_201_def split: prod.splits)

lemma call_terminates:
  assumes f: "poolingFunc L = ''max'' \<or> poolingFunc L = ''average''"
    and s: "strides L = (sh, sw)" and pos: "0 < sh" "0 < sw"
    and x1: "x1 = (if dimOrdering L = ''th'' then transpose_120 x else x)"
    and sx: "shape x1 = (H, W, C)"
  shows "\<exists>y h' outH outW. call L h x =
           Some (Inr (if dimOrdering L = ''th'' then transpose_201 y else y), calcOutputShape L x1, h') \<and>
         outputShape (calcOutputShape L x1) = Some (outH, outW, C) \<and> shape y = (outH, outW, C)"
proof -
  define L1 where "L1 = calcOutputShape L x1"
  obtain h1 x2 where p: "padInput L1 h x1 = Inr (h1, x2)"
    using padInput_calc_not_error [of L x1 h x1] unfolding L1_def
    by (cases "padInput (calcOutputShape L x1) h x1") auto
  obtain kh kw where k: "poolSize L = (kh, kw)" by (cases "poolSize L") auto
  from calcOutputShape_fields [OF sx k s]
  obtain outH outW prb pra pcb pca where os: "outputShape L1 = Some (outH, outW, C)"
    and ip: "inputPadding L1 = Some (prb, pra, pcb, pca)"
    unfolding L1_def by (cases "borderMode L = ''same''") simp_all
  obtain h2 y where y: "newTensor h1 (outH, outW, C) = (h2, y)"
    by (cases "newTensor h1 (outH, outW, C)") auto
  obtain h3 patch where pt:
    "newTensor h2 (fst (poolSize L), snd (poolSize L), snd (snd (shape x2))) = (h3, patch)"
    by (cases "newTensor h2 (fst (poolSize L), snd (poolSize L), snd (snd (shape x2)))") auto
  obtain R Q ch where s2: "shape x2 = (R, Q, ch)" by (cases "shape x2") auto
  have k1: "poolSize L1 = (kh, kw)" and s1: "strides L1 = (sh, sw)"
    using k s by (simp_all add: L1_def calcOutputShape_frame)
  from poolLoops_eq [OF s2 k1 s1 pos, of y patch prb pra pcb pca h3]
  obtain h4 where lp: "poolLoops L1 x2 y patch (prb, pra, pcb, pca) h3 = Some h4" by blast
  have sy: "shape y = (outH, outW, C)" using y by (auto simp add: newTensor_def)
  have "call L h x = Some (Inr (if dimOrdering L = ''th'' then transpose_201 y else y), L1, h4)"
    unfolding call_unfold [OF f x1 L1_def p os ip y pt] by (simp add: lp)
  with os sy show ?thesis unfolding L1_def by blast
qed


text \<open>
  Claim C8.  For a channels-first input of shape \<open>(C, H, W)\<close>, with a valid pooling
  function and positive strides, \<open>call\<close> returns, and what it returns is the channels-last
  call on the input transposed to \<open>(H, W, C)\<close>, transposed back: the output has shape
  \<open>(C, outH, outW)\<close>.  The two transpositions are inverse to each other and only permute
  the indices under which the cells are read.
\<close>

theorem call_channels_first:
  assumes "dimOrdering L = ''th''"
    and "poolingFunc L = ''max'' \<or> poolingFunc L = ''average''"
    and "strides L = (sh, sw)" and "0 < sh" and "0 < sw"
    and "shape x = (C, H, W)"
  shows "\<exists>y L' h' outH outW.
           call L h x = Some (Inr (transpose_201 y), L', h') \<and>
           call (L\<lparr>dimOrdering := ''tf''\<rparr>) h (transpose_120 x)
             = Some (Inr y, L'\<lparr>dimOrdering := ''tf''\<rparr>, h') \<and>
           L' = calcOutputShape L (transpose_120 x) \<and> outputShape L' = Some (outH, outW, C) \<and>
           shape (transpose_120 x) = (H, W, C) \<and>
           shape y = (outH, outW, C) \<and> shape (transpose_201 y) = (C, outH, outW) \<and>
           transpose_201 (transpose_120 x) = x \<and> transpose_120 (transpose_201 y) = y \<and>
           (\<forall>g i j k. get g (transpose_120 x) (i, j, k) = get g x (k, i, j)) \<and>
           (\<forall>g i j k. get g (transpose_201 y) (k, i, j) = get g y (i, j, k))"
proof -
  let ?x1 = "transpose_120 x"
  let ?T = "L\<lparr>dimOrdering := ''tf''\<rparr>"
  have x1: "?x1 = (if dimOrdering L = ''th'' then transpose_120 x else x)"
    using assms(1) by simp
  have sx1: "shape ?x1 = (H, W, C)" using assms(6) by (rule shape_transpose_120)
  define L1 where "L1 = calcOutputShape L ?x1"
  obtain h1 x2 where p: "padInput L1 h ?x1 = Inr (h1, x2)"
    using padInput_calc_not_error [of L ?x1 h ?x1] unfolding L1_def
    by (cases "padInput (calcOutputShape L ?x1) h ?x1") auto
  obtain kh kw where k: "poolSize L = (kh, kw)" by (cases "poolSize L") auto
  from calcOutputShape_fields [OF sx1 k assms(3)]
  obtain outH outW prb pra pcb pca where os: "outputShape L1 = Some (outH, outW, C)"
    and ip: "inputPadding L1 = Some (prb, pra, pcb, pca)"
    unfolding L1_def by (cases "borderMode L = ''same''") simp_all
  obtain h2 y where y: "newTensor h1 (outH, outW, C) = (h2, y)"
    by (cases "newTensor h1 (outH, outW, C)") auto
  obtain h3 patch where pt:
    "newTensor h2 (fst (poolSize L), snd (poolSize L), snd (snd (shape x2))) = (h3, patch)"
    by (cases "newTensor h2 (fst (poolSize L), snd (poolSize L), snd (snd (shape x2)))") auto
  obtain R Q ch where s2: "shape x2 = (R, Q, ch)" by (cases "shape x2") auto
  have k1: "poolSize L1 = (kh, kw)" and s1: "strides L1 = (sh, sw)"
    using k assms(3) by (simp_all add: L1_def calcOutputShape_frame)
  from poolLoops_eq [OF s2 k1 s1 assms(4,5), of y patch prb pra pcb pca h3]
  obtain h4 where lp: "poolLoops L1 x2 y patch (prb, pra, pcb, pca) h3 = Some h4" by blast
  have sy: "shape y = (outH, outW, C)" using y by (auto simp add: newTensor_def)
  have c1: "call L h x = Some (Inr (transpose_201 y), L1, h4)"
    unfolding call_unfold [OF assms(2) x1 L1_def p os ip y pt] using assms(1) by (simp add: lp)
  \<comment> \<open>the same call in \<open>tf\<close> ordering, on the transposed tensor\<close>
  define T1 where "T1 = calcOutputShape ?T ?x1"
  have T1: "T1 = L1\<lparr>dimOrdering := ''tf''\<rparr>"
    by (simp add: T1_def L1_def calcOutputShape_dimOrdering)
  have fT: "poolingFunc ?T = ''max'' \<or> poolingFunc ?T = ''average''" using assms(2) by simp
  have xT: "?x1 = (if dimOrdering ?T = ''th'' then transpose_120 ?x1 else ?x1)" by simp
  have pT: "padInput T1 h ?x1 = Inr (h1, x2)" using p by (simp add: T1 padInput_dimOrdering)
  have osT: "outputShape T1 = Some (outH, outW, C)" using os by (simp add: T1)
  have ipT: "inputPadding T1 = Some (prb, pra, pcb, pca)" using ip by (simp add: T1)
  have ptT: "newTensor h2 (fst (poolSize ?T), snd (poolSize ?T), snd (snd (shape x2))) = (h3, patch)"
    using pt by simp
  have lpT: "poolLoops T1 x2 y patch (prb, pra, pcb, pca) h3 = Some h4"
    using lp by (simp add: T1 poolLoops_dimOrdering)
  have c2: "call ?T h ?x1 = Some (Inr y, L1\<lparr>dimOrdering := ''tf''\<rparr>, h4)"
    unfolding call_unfold [OF fT xT T1_def pT osT ipT y ptT] lpT by (simp add: T1)
  have "shape (transpose_201 y) = (C, outH, outW)" using sy by (rule shape_transpose_201)
  with c1 c2 sx1 sy os L1_def show ?thesis
    using transpose_inverse get_transpose by blast
qed


theorem call_channels_first_witness:
  "\<exists>y L' h'.
     call (Pooling2D_constructor False attrs_th) heap_4x4x1 view_1x4x4
       = Some (Inr (transpose_201 y), L', h') \<and>
     call ((Pooling2D_constructor False attrs_th)\<lparr>dimOrdering := ''tf''\<rparr>) heap_4x4x1
          (transpose_120 view_1x4x4)
       = Some (Inr y, L'\<lparr>dimOrdering := ''tf''\<rparr>, h') \<and>
     shape (transpose_201 y) = (1, 2, 2) \<and> transpose_201 (transpose_120 view_1x4x4) = view_1x4x4"
proof -
  let ?L = "Pooling2D_constructor False attrs_th"
  have flds: "poolSize ?L = (2, 2)" "strides ?L = (2, 2)" "borderMode ?L = ''valid''"
    "dimOrdering ?L = ''th''" "poolingFunc ?L = ''max''"
    by (simp_all add: Pooling2D_constructor_fields attrs_th_def)
  have sx: "shape view_1x4x4 = (1, 4, 4)" by (simp add: view_1x4x4_def)
  have st: "shape (transpose_120 view_1x4x4) = (4, 4, 1)" using sx by (rule shape_transpose_120)
  have os: "outputShape (calcOutputShape ?L (transpose_120 view_1x4x4)) = Some (2, 2, 1)"
    using calcOutputShape_fields(1) [OF st flds(1,2)] by (simp add: flds)
  from call_channels_first [OF flds(4) _ flds(2) _ _ sx, of heap_4x4x1] flds(5)
  obtain y L' h' outH outW where
    c: "call ?L heap_4x4x1 view_1x4x4 = Some (Inr (transpose_201 y), L', h')"
      "call (?L\<lparr>dimOrdering := ''tf''\<rparr>) heap_4x4x1 (transpose_120 view_1x4x4)
         = Some (Inr y, L'\<lparr>dimOrdering := ''tf''\<rparr>, h')"
    and l: "L' = calcOutputShape ?L (transpose_120 view_1x4x4)"
    and o: "outputShape L' = Some (outH, outW, 1)"
    and s: "shape (transpose_201 y) = (1, outH, outW)"
    and t: "transpose_201 (transpose_120 view_1x4x4) = view_1x4x4"
    by auto
  from l o os have "outH = 2 \<and> outW = 2" by simp
  with c s t show ?thesis by blast
qed

section \<open>Average pooling at the borders\<close>

lemma layer_average_3x3_fields:
  "poolSize layer_average_3x3 = (3, 3)" "strides layer_average_3x3 = (1, 1)"
  "borderMode layer_average_3x3 = ''same''" "dimOrdering layer_average_3x3 = ''tf''"
  "poolingFunc layer_average_3x3 = ''average''"
  by (simp_all add: layer_average_3x3_def Pooling2D_constructor_fields attrs_3x3_same_def)

lemma indices3_331: "indices3 (3, 3, 1) =
  [(0,0,0), (0,1,0), (0,2,0), (1,0,0), (1,1,0), (1,2,0), (2,0,0), (2,1,0), (2,2,0)]"
  by (simp add: indices3_def upto_rec1)

lemma indices3_111: "indices3 (1, 1, 1) = [(0,0,0)]"
  by (simp add: indices3_def)

lemma indices2_331: "indices2 (3, 3, 1) =
  [(0,0), (0,1), (0,2), (1,0), (1,1), (1,2), (2,0), (2,1), (2,2)]"
  by (simp add: indices2_def upto_rec1)

lemma pad_six:
  "padInput (calcOutputShape layer_average_3x3 view_1x1x1) [[Fin 6]] view_1x1x1
     = Inr (heap_padded_six, view_3x3x1)"
proof -
  let ?L = "calcOutputShape layer_average_3x3 view_1x1x1"
  have sx: "shape view_1x1x1 = (1, 1, 1)" by (simp add: view_1x1x1_def)
  have ip: "inputPadding ?L = Some (1, 1, 1, 1)"
    using calcOutputShape_fields(2) [OF sx layer_average_3x3_fields(1,2)]
    by (simp add: layer_average_3x3_fields)
  have b: "borderMode ?L = ''same''" and f: "poolingFunc ?L = ''average''"
    by (simp_all add: calcOutputShape_frame layer_average_3x3_fields)
  have v: "view_3x3x1 = \<lparr>data = length [[Fin 6]], shape = (1 + 1 + 1, 1 + 1 + 1, 1),
               stride = ((1 + 1 + 1) * 1, 1, 1), offset = 0\<rparr>"
    by (simp add: view_3x3x1_def)
  have d: "lo (hi view_3x3x1 (1 + 1, 1 + 1, 1)) (1, 1, 0)
      = \<lparr>data = 1, shape = (1, 1, 1), stride = (3, 1, 1), offset = 4\<rparr>"
    by (simp add: view_3x3x1_def hi_def lo_def)
  show ?thesis
    unfolding padInput_same_unfold [OF b ip sx v refl] d f
    by (simp add: assign_def indices3_111 set3_def get_def buf_def buf_get_def buf_set_def flat_def
        view_1x1x1_def heap_padded_six_def numeral_eq_Suc)
qed


lemma window_six:
  "poolWindow (calcOutputShape layer_average_3x3 view_1x1x1) view_3x3x1 view_y_six view_patch_six
     0 0 0 0 2 2 heap_six_windows = heap_six_result"
proof -
  let ?L = "calcOutputShape layer_average_3x3 view_1x1x1"
  have k: "poolSize ?L = (3, 3)" and f: "poolingFunc ?L = ''average''"
    by (simp_all add: calcOutputShape_frame layer_average_3x3_fields)
  have sx: "shape view_3x3x1 = (3, 3, 1)" by (simp add: view_3x3x1_def)
  have w: "lo (hi view_3x3x1 (3, 3, 1)) (0, 0, 0) = view_3x3x1"
    by (simp add: view_3x3x1_def hi_def lo_def)
  have a: "assign heap_six_windows view_patch_six view_3x3x1 =
      [[Fin 6], [Fin 0, Fin 0, Fin 0, Fin 0, Fin 6, Fin 0, Fin 0, Fin 0, Fin 0],
       [Fin 0], [Fin 0, Fin 0, Fin 0, Fin 0, Fin 6, Fin 0, Fin 0, Fin 0, Fin 0]]"
    by (simp add: assign_def view_patch_six_def indices3_331 set3_def get_def buf_def buf_get_def
        buf_set_def flat_def view_3x3x1_def heap_six_windows_def numeral_eq_Suc)
  have s: "sum_pick [[Fin 6], [Fin 0, Fin 0, Fin 0, Fin 0, Fin 6, Fin 0, Fin 0, Fin 0, Fin 0],
       [Fin 0], [Fin 0, Fin 0, Fin 0, Fin 0, Fin 6, Fin 0, Fin 0, Fin 0, Fin 0]] view_patch_six 0 = Fin 6"
    by (simp add: sum_pick_def view_patch_six_def indices2_331 get_def buf_def buf_get_def flat_def)
  have dv: "num_div (Fin 6) 2 2 = Fin (3 / 2)" by (simp add: num_div_def)
  show ?thesis
    by (simp add: poolWindow_def sx k w a poolCell_def f s dv)
      (simp add: set3_def view_y_six_def buf_set_def flat_def heap_six_result_def)
qed

text \<open>
  The padding count of \<open>call\<close> against the overlap of the window with the two bands, for
  bands narrower than the window: they agree unless the window reaches into both bands,
  where \<open>call\<close> leaves out the part in the band after.
\<close>

lemma nbColInPadding_eq: "nbColInPadding = nbRowInPadding"
  by (simp add: fun_eq_iff nbColInPadding_def nbRowInPadding_def)

lemma spec_inPadding_card:
  assumes "before \<le> n - after"
  shows "spec_inPadding i k n before after =
     max 0 (min (i + k) before - i) + max 0 (i + k - max i (n - after))"
proof -
  let ?A = "{i..<min (i + k) before}" and ?B = "{max i (n - after)..<i + k}"
  have "{r. r < before \<or> n - after \<le> r} \<inter> set [i..i + k - 1] = ?A \<union> ?B"
    by auto
  moreover have "?A \<inter> ?B = {}" using assms by auto
  ultimately have "card ({r. r < before \<or> n - after \<le> r} \<inter> set [i..i + k - 1]) = card ?A + card ?B"
    by (simp add: card_Un_disjoint)
  then have "length (filter (\<lambda>r. r < before \<or> n - after \<le> r) [i..i + k - 1]) = card ?A + card ?B"
    by (simp add: distinct_length_filter)
  then show ?thesis by (simp add: spec_inPadding_def max_def)
qed

lemma nbRowInPadding_full_overlap:
  assumes "0 \<le> before" and "before < k" and "0 \<le> after" and "after < k"
    and "0 \<le> i" and "i + k \<le> n" and "before \<le> n - after"
  shows "nbRowInPadding i k n before after =
     (if i < before \<and> n - after < i + k then spec_inPadding i k n before after - (i + k - (n - after))
      else spec_inPadding i k n before after)"
  using assms by (simp add: spec_inPadding_card nbRowInPadding_def max_def min_def)

text \<open>
  Claim C3, at an input where the code departs from it.  The input is one cell holding 6;
  the window is 3 by 3 with stride 1, in \<open>same\<close> mode, with the pooling function
  \<open>average\<close>.  The padding is one row and one column on every side, so the only window
  overlaps the band before and the band after in both directions, and one of its nine
  cells is genuine.  \<open>call\<close> counts the band before only (one row and one column, where
  two of each lie in the padding), divides the sum 6 by \<open>(3 - 1) * (3 - 1)\<close> and stores
  \<open>3 / 2\<close>, where the mean of the genuine values is 6.
\<close>

theorem call_average_both_bands:
  "inputPadding (calcOutputShape layer_average_3x3 view_1x1x1) = Some (1, 1, 1, 1) \<and>
   call layer_average_3x3 [[Fin 6]] view_1x1x1 =
     Some (Inr view_y_six, calcOutputShape layer_average_3x3 view_1x1x1, heap_six_result) \<and>
   get heap_six_result view_y_six (0, 0, 0) = Fin (3 / 2) \<and>
   get heap_six_result view_y_six (0, 0, 0) \<noteq> get [[Fin 6]] view_1x1x1 (0, 0, 0) \<and>
   nbRowInPadding 0 3 3 1 1 = 1 \<and> nbColInPadding 0 3 3 1 1 = 1 \<and> spec_inPadding 0 3 3 1 1 = 2"
proof -
  let ?L = "calcOutputShape layer_average_3x3 view_1x1x1"
  have sx: "shape view_1x1x1 = (1, 1, 1)" by (simp add: view_1x1x1_def)
  have ip: "inputPadding ?L = Some (1, 1, 1, 1)"
    using calcOutputShape_fields(2) [OF sx layer_average_3x3_fields(1,2)]
    by (simp add: layer_average_3x3_fields)
  have os: "outputShape ?L = Some (1, 1, 1)"
    using calcOutputShape_fields(1) [OF sx layer_average_3x3_fields(1,2)]
    by (simp add: layer_average_3x3_fields)
  have k: "poolSize ?L = (3, 3)" and st: "strides ?L = (1, 1)"
    by (simp_all add: calcOutputShape_frame layer_average_3x3_fields)
  have f: "poolingFunc layer_average_3x3 = ''max'' \<or> poolingFunc layer_average_3x3 = ''average''"
    by (simp add: layer_average_3x3_fields)
  have x1: "view_1x1x1 = (if dimOrdering layer_average_3x3 = ''th'' then transpose_120 view_1x1x1 else view_1x1x1)"
    by (simp add: layer_average_3x3_fields)
  have y: "newTensor heap_padded_six (1, 1, 1) = (heap_padded_six @ [[Fin 0]], view_y_six)"
    by (simp add: newTensor_def view_y_six_def heap_padded_six_def)
  have pt: "newTensor (heap_padded_six @ [[Fin 0]])
      (fst (poolSize layer_average_3x3), snd (poolSize layer_average_3x3), snd (snd (shape view_3x3x1)))
      = (heap_six_windows, view_patch_six)"
    by (simp add: newTensor_def layer_average_3x3_fields view_3x3x1_def view_patch_six_def
        heap_padded_six_def heap_six_windows_def numeral_eq_Suc)
  have s3: "shape view_3x3x1 = (3, 3, 1)" by (simp add: view_3x3x1_def)
  have pos: "positions 1 1 (iterations 0 1 0) (iterations 0 1 0) = [(0, 0)]"
    by (simp add: positions_def iterations_def)
  have lp: "poolLoops ?L view_3x3x1 view_y_six view_patch_six (1, 1, 1, 1) heap_six_windows
      = Some heap_six_result"
    using poolLoops_eq [OF s3 k st, of view_y_six view_patch_six 1 1 1 1 heap_six_windows]
    by (simp add: pos nbRowInPadding_def nbColInPadding_def window_six)
  have c: "call layer_average_3x3 [[Fin 6]] view_1x1x1 = Some (Inr view_y_six, ?L, heap_six_result)"
    unfolding call_unfold [OF f x1 refl pad_six os ip y pt] lp
    by (simp add: layer_average_3x3_fields)
  have g: "get heap_six_result view_y_six (0, 0, 0) = Fin (3 / 2)"
    by (simp add: get_def buf_def buf_get_def flat_def heap_six_result_def view_y_six_def)
  have g0: "get [[Fin 6]] view_1x1x1 (0, 0, 0) = Fin 6"
    by (simp add: get_def buf_def buf_get_def flat_def view_1x1x1_def)
  have n: "nbRowInPadding 0 3 3 1 1 = 1" "nbColInPadding 0 3 3 1 1 = 1"
    by (simp_all add: nbRowInPadding_def nbColInPadding_def)
  have sp: "spec_inPadding 0 3 3 1 1 = 2"
    by (simp add: spec_inPadding_def upto_rec1)
  from ip c g g0 n sp show ?thesis by simp
qed

end
